theory Spec2Isabelle
  imports Complex_Main
begin

section \<open>Data model\<close>

text \<open>
  The component \<^verbatim>\<open>AnalogTypingTest\<close> is modelled in its two evaluation variants: the
  dwell variant (hold the key for 750 ms; the copy of the component that declares
  \<^verbatim>\<open>holdStartTime\<close>) and the peak variant (track the maximum, resolve on release; the
  copy under \<^verbatim>\<open>frontend/\<close>, which declares \<^verbatim>\<open>maxAnalog\<close> and \<^verbatim>\<open>keyHeld\<close>). The hook
  \<^verbatim>\<open>useWebSocket\<close> feeds both. JavaScript numbers are modelled as follows: timestamps of \<^verbatim>\<open>Date.now()\<close>
  and counters are \<open>nat\<close>, pressures and statistics are \<open>real\<close>. Rounding of IEEE
  doubles, \<^verbatim>\<open>NaN\<close> and the infinities are outside the model.
\<close>

record KeyData =
  keyCode :: nat
  analogValue :: real
  isPressed :: nat

record TestSequence =
  key :: string
  keyCode :: nat
  targetPressure :: real

record TestStats =
  accuracy :: real
  totalAttempts :: nat
  successfulHits :: nat
  averageDeviation :: real

text \<open>One call of \<^verbatim>\<open>handleAttempt(deviation, isSuccess, message)\<close>.\<close>

record Attempt =
  deviation :: real
  isSuccess :: bool
  message :: string

section \<open>Statistics\<close>

text \<open>The initial value of \<^verbatim>\<open>testStats\<close>, also written by \<^verbatim>\<open>resetTest\<close>.\<close>

definition zeroStats :: TestStats where
  "zeroStats = \<lparr>accuracy = 0, totalAttempts = 0, successfulHits = 0, averageDeviation = 0\<rparr>"

text \<open>The updater passed to \<^verbatim>\<open>setTestStats\<close> in \<^verbatim>\<open>handleAttempt\<close>.\<close>

definition updateStats :: "real \<Rightarrow> bool \<Rightarrow> TestStats \<Rightarrow> TestStats" where
  "updateStats dev success prev =
     (let newTotal = totalAttempts prev + 1;
          newHits = successfulHits prev + (if success then 1 else 0);
          newAccuracy = (real newHits / real newTotal) * 100;
          avgDev = (averageDeviation prev * real (totalAttempts prev) + dev) / real newTotal
      in \<lparr>accuracy = newAccuracy, totalAttempts = newTotal,
          successfulHits = newHits, averageDeviation = avgDev\<rparr>)"

text \<open>Recording a series of attempts, oldest first.\<close>

fun recordAll :: "TestStats \<Rightarrow> (real \<times> bool) list \<Rightarrow> TestStats" where
  "recordAll st [] = st"
| "recordAll st ((d, ok) # as) = recordAll (updateStats d ok st) as"

section \<open>Session state\<close>

text \<open>
  The React state shared by both variants. Two fields are bookkeeping of the model:
  \<open>timers\<close> holds, oldest first, the earliest firing time of every callback scheduled by
  \<^verbatim>\<open>setTimeout\<close> and not yet run (the component keeps no handle to them), and
  \<open>attemptLog\<close> records the arguments of every call of \<^verbatim>\<open>handleAttempt\<close>.
\<close>

record AnalogTypingTest =
  testSequence :: "TestSequence list"
  currentIndex :: nat
  isTestActive :: bool
  cooldownUntil :: "nat option"
  testStats :: TestStats
  timers :: "nat list"
  attemptLog :: "Attempt list"

text \<open>The dwell variant adds \<^verbatim>\<open>holdStartTime\<close>.\<close>

record DwellTest = AnalogTypingTest +
  holdStartTime :: "nat option"

text \<open>The peak variant adds \<^verbatim>\<open>levelCount\<close>, \<^verbatim>\<open>maxAnalog\<close> and \<^verbatim>\<open>keyHeld\<close>.\<close>

record PeakTest = AnalogTypingTest +
  levelCount :: nat
  maxAnalog :: real
  keyHeld :: bool

text \<open>Truthiness of a \<^verbatim>\<open>number | null\<close>: \<^verbatim>\<open>null\<close> and \<^verbatim>\<open>0\<close> are falsy.\<close>

definition truthy :: "nat option \<Rightarrow> bool" where
  "truthy v = (case v of None \<Rightarrow> False | Some t \<Rightarrow> t \<noteq> 0)"

text \<open>The guard \<^verbatim>\<open>cooldownUntil && Date.now() < cooldownUntil\<close>.\<close>

definition coolingDown :: "nat option \<Rightarrow> nat \<Rightarrow> bool" where
  "coolingDown cd now = (case cd of None \<Rightarrow> False | Some t \<Rightarrow> t \<noteq> 0 \<and> now < t)"

section \<open>Resolving an attempt\<close>

text \<open>
  \<^verbatim>\<open>handleAttempt\<close> as far as both variants agree: the statistics, the toast (kept as
  a log entry), the cooldown deadline and the scheduled advance. \<open>now\<close> is the value
  of \<^verbatim>\<open>Date.now()\<close> during the call.
\<close>

definition handleAttempt ::
  "real \<Rightarrow> bool \<Rightarrow> string \<Rightarrow> nat \<Rightarrow> 'a AnalogTypingTest_scheme \<Rightarrow> 'a AnalogTypingTest_scheme" where
  "handleAttempt dev ok msg now s =
     s\<lparr>testStats := updateStats dev ok (testStats s),
       attemptLog := attemptLog s @ [\<lparr>deviation = dev, isSuccess = ok, message = msg\<rparr>],
       cooldownUntil := Some (now + 3000),
       timers := timers s @ [now + 3000]\<rparr>"

text \<open>The dwell variant's \<^verbatim>\<open>handleAttempt\<close> also clears the hold start.\<close>

definition handleAttempt_dwell :: "real \<Rightarrow> bool \<Rightarrow> string \<Rightarrow> nat \<Rightarrow> DwellTest \<Rightarrow> DwellTest" where
  "handleAttempt_dwell dev ok msg now s = (handleAttempt dev ok msg now s)\<lparr>holdStartTime := None\<rparr>"

text \<open>The callback given to \<^verbatim>\<open>setTimeout\<close>.\<close>

definition advance :: "'a AnalogTypingTest_scheme \<Rightarrow> 'a AnalogTypingTest_scheme" where
  "advance s = s\<lparr>currentIndex := currentIndex s + 1, cooldownUntil := None\<rparr>"

text \<open>The oldest pending callback runs once its delay has passed.\<close>

definition timerFires :: "nat \<Rightarrow> 'a AnalogTypingTest_scheme \<Rightarrow> 'a AnalogTypingTest_scheme" where
  "timerFires now s =
     (case timers s of
        [] \<Rightarrow> s
      | due # rest \<Rightarrow> if due \<le> now then advance (s\<lparr>timers := rest\<rparr>) else s)"

section \<open>The evaluation effect\<close>

text \<open>
  The body of the effect of the dwell variant, run with the snapshot list \<open>keyData\<close>
  at time \<open>now\<close>: the readings of \<^verbatim>\<open>Date.now()\<close> during one run of the effect are taken
  to be the same.
\<close>

definition evaluate_dwell :: "KeyData list \<Rightarrow> nat \<Rightarrow> DwellTest \<Rightarrow> DwellTest" where
  "evaluate_dwell keyData now s =
     (if \<not> isTestActive s \<or> length (testSequence s) \<le> currentIndex s then s
      else if coolingDown (cooldownUntil s) now then s
      else
        let currentTarget = testSequence s ! currentIndex s;
            correctKeyPress = find (\<lambda>k. KeyData.keyCode k = TestSequence.keyCode currentTarget
                                          \<and> isPressed k = 1) keyData;
            wrongKeyPress = find (\<lambda>k. KeyData.keyCode k \<noteq> TestSequence.keyCode currentTarget
                                        \<and> isPressed k = 1) keyData
        in case wrongKeyPress of
             Some w \<Rightarrow> handleAttempt_dwell 100 False ''Wrong key!'' now s
           | None \<Rightarrow>
               (case correctKeyPress of
                  Some k \<Rightarrow>
                    let pressurePercent = analogValue k * 100;
                        dev = \<bar>pressurePercent - targetPressure currentTarget\<bar>;
                        withinRange = (dev \<le> 10)
                    in if withinRange then
                         (if \<not> truthy (holdStartTime s) then s\<lparr>holdStartTime := Some now\<rparr>
                          else if 750 \<le> int now - int (the (holdStartTime s))
                               then handleAttempt_dwell dev True ''Perfect!'' now s
                          else s)
                       else
                         (if \<not> truthy (holdStartTime s) then s\<lparr>holdStartTime := Some now\<rparr>
                          else if 750 \<le> int now - int (the (holdStartTime s))
                               then handleAttempt_dwell dev False ''Wrong pressure!'' now s
                          else s)
                | None \<Rightarrow> s\<lparr>holdStartTime := None\<rparr>))"

text \<open>The body of the effect of the peak variant.\<close>

definition evaluate_peak :: "KeyData list \<Rightarrow> nat \<Rightarrow> PeakTest \<Rightarrow> PeakTest" where
  "evaluate_peak keyData now s =
     (if \<not> isTestActive s \<or> length (testSequence s) \<le> currentIndex s then s
      else if coolingDown (cooldownUntil s) now then s
      else
        let currentTarget = testSequence s ! currentIndex s;
            keyEvent = find (\<lambda>k. KeyData.keyCode k = TestSequence.keyCode currentTarget) keyData;
            otherPressed = find (\<lambda>k. KeyData.keyCode k \<noteq> TestSequence.keyCode currentTarget
                                       \<and> isPressed k \<noteq> 0) keyData
        in case otherPressed of
             Some w \<Rightarrow> handleAttempt 100 False ''Wrong key!'' now s
           | None \<Rightarrow>
               if (case keyEvent of Some k \<Rightarrow> isPressed k \<noteq> 0 | None \<Rightarrow> False)
               then s\<lparr>keyHeld := True,
                      maxAnalog := max (maxAnalog s) (analogValue (the keyEvent))\<rparr>
               else if keyHeld s then
                 (let percent = maxAnalog s * 100;
                      dev = \<bar>percent - targetPressure currentTarget\<bar>;
                      success = (dev \<le> 10)
                  in (handleAttempt dev success (if success then ''Good!'' else ''Missed target'') now s)
                       \<lparr>keyHeld := False, maxAnalog := 0\<rparr>)
               else s)"

text \<open>The effect that ends the test when the sequence is exhausted.\<close>

definition completeTest :: "'a AnalogTypingTest_scheme \<Rightarrow> 'a AnalogTypingTest_scheme" where
  "completeTest s =
     (if length (testSequence s) \<le> currentIndex s \<and> isTestActive s
      then s\<lparr>isTestActive := False\<rparr> else s)"

section \<open>Session controls\<close>

text \<open>\<^verbatim>\<open>startTest\<close>; \<open>online\<close> says whether the connection status is \<^verbatim>\<open>'connected'\<close>.\<close>

definition startTest :: "bool \<Rightarrow> 'a AnalogTypingTest_scheme \<Rightarrow> 'a AnalogTypingTest_scheme" where
  "startTest online s = (if \<not> online then s else s\<lparr>isTestActive := True\<rparr>)"

definition pauseTest :: "'a AnalogTypingTest_scheme \<Rightarrow> 'a AnalogTypingTest_scheme" where
  "pauseTest s = s\<lparr>isTestActive := False\<rparr>"

section \<open>Sequence generation\<close>

definition HOME_ROW_KEYS :: "(string \<times> nat) list" where
  "HOME_ROW_KEYS =
     [(''a'', 4), (''s'', 22), (''d'', 7), (''f'', 9), (''j'', 13), (''k'', 14), (''l'', 15)]"

text \<open>The dwell variant has one fixed list of levels.\<close>

definition PRESSURE_LEVELS :: "real list" where
  "PRESSURE_LEVELS = [30, 60, 100]"

text \<open>The peak variant looks the levels up by \<^verbatim>\<open>levelCount\<close>.\<close>

definition PRESSURE_LEVELS_MAP :: "nat \<Rightarrow> real list option" where
  "PRESSURE_LEVELS_MAP n =
     (if n = 2 then Some [50, 100] else if n = 3 then Some [30, 60, 100] else None)"

text \<open>\<^verbatim>\<open>PRESSURE_LEVELS_MAP[levelCount] || [30, 60, 100]\<close>\<close>

definition levelsFor :: "nat \<Rightarrow> real list" where
  "levelsFor n = (case PRESSURE_LEVELS_MAP n of Some ls \<Rightarrow> ls | None \<Rightarrow> [30, 60, 100])"

text \<open>
  \<^verbatim>\<open>xs[Math.floor(r * xs.length)]\<close> for a draw \<open>r\<close> of \<^verbatim>\<open>Math.random()\<close>. An index
  outside the list gives \<^verbatim>\<open>undefined\<close> in JavaScript; the model gives \<open>None\<close>.
\<close>

definition pick :: "'a list \<Rightarrow> real \<Rightarrow> 'a option" where
  "pick xs r =
     (let i = \<lfloor>r * real (length xs)\<rfloor>
      in if 0 \<le> i \<and> i < int (length xs) then Some (xs ! nat i) else None)"

text \<open>
  The sequence after \<open>n\<close> rounds of the loop. \<open>rng k\<close> is the result of the \<open>k\<close>-th call
  of \<^verbatim>\<open>Math.random()\<close>, counted from 0: round \<open>i\<close> draws the key with call \<open>2 * i\<close>
  and the pressure with call \<open>2 * i + 1\<close>.
\<close>

fun generateRounds :: "real list \<Rightarrow> (nat \<Rightarrow> real) \<Rightarrow> nat \<Rightarrow> TestSequence list option" where
  "generateRounds levels rng 0 = Some []"
| "generateRounds levels rng (Suc i) =
     (case generateRounds levels rng i of
        None \<Rightarrow> None
      | Some sequence \<Rightarrow>
          (case pick HOME_ROW_KEYS (rng (2 * i)) of
             None \<Rightarrow> None
           | Some randomKey \<Rightarrow>
               (case pick levels (rng (2 * i + 1)) of
                  None \<Rightarrow> None
                | Some randomPressure \<Rightarrow>
                    Some (sequence @ [\<lparr>key = fst randomKey, keyCode = snd randomKey,
                                       targetPressure = randomPressure\<rparr>]))))"

text \<open>\<^verbatim>\<open>generateTestSequence\<close>: 20 rounds, then the sequence and the index are stored.\<close>

definition generateTestSequence ::
  "real list \<Rightarrow> (nat \<Rightarrow> real) \<Rightarrow> 'a AnalogTypingTest_scheme \<Rightarrow> 'a AnalogTypingTest_scheme option" where
  "generateTestSequence levels rng s =
     (case generateRounds levels rng 20 of
        None \<Rightarrow> None
      | Some sequence \<Rightarrow> Some (s\<lparr>testSequence := sequence, currentIndex := 0\<rparr>))"

definition generateTestSequence_dwell :: "(nat \<Rightarrow> real) \<Rightarrow> DwellTest \<Rightarrow> DwellTest option" where
  "generateTestSequence_dwell rng s = generateTestSequence PRESSURE_LEVELS rng s"

definition generateTestSequence_peak :: "(nat \<Rightarrow> real) \<Rightarrow> PeakTest \<Rightarrow> PeakTest option" where
  "generateTestSequence_peak rng s = generateTestSequence (levelsFor (levelCount s)) rng s"

text \<open>Every draw of \<^verbatim>\<open>Math.random()\<close> lies in \<open>[0, 1)\<close>.\<close>

definition unitDraws :: "(nat \<Rightarrow> real) \<Rightarrow> bool" where
  "unitDraws rng = (\<forall>k. 0 \<le> rng k \<and> rng k < 1)"

section \<open>Resetting\<close>

definition resetTest_dwell :: "(nat \<Rightarrow> real) \<Rightarrow> DwellTest \<Rightarrow> DwellTest option" where
  "resetTest_dwell rng s =
     generateTestSequence_dwell rng
       (s\<lparr>isTestActive := False, currentIndex := 0, testStats := zeroStats,
          holdStartTime := None, cooldownUntil := None\<rparr>)"

definition resetTest_peak :: "(nat \<Rightarrow> real) \<Rightarrow> PeakTest \<Rightarrow> PeakTest option" where
  "resetTest_peak rng s =
     generateTestSequence_peak rng
       (s\<lparr>isTestActive := False, currentIndex := 0, testStats := zeroStats,
          cooldownUntil := None, maxAnalog := 0, keyHeld := False\<rparr>)"

section \<open>Telemetry decoding\<close>

text \<open>
  The handler \<^verbatim>\<open>ws.onmessage\<close> of \<^verbatim>\<open>useWebSocket\<close> finds the groups of a text
  message with the pattern \<^verbatim>\<open>\((\d+):([^:]+):(\d+)\)\<close>. A message is a \<open>string\<close>; the
  pattern only tells digits, the colon and the two parentheses from other characters.
\<close>

definition isDigit :: "char \<Rightarrow> bool" where
  "isDigit c = (c \<in> set ''0123456789'')"

text \<open>
  The pattern read by a backtracking search, as a regular-expression engine does it: an
  item is one character of a class or a greedy repetition \<^verbatim>\<open>+\<close> of a class. The
  repetition first takes the longest run and gives characters back one at a time while the
  rest of the pattern fails. The result is the text matched by every item and the text
  after the match.
\<close>

datatype item = One "char \<Rightarrow> bool" | Many "char \<Rightarrow> bool"

fun tryLengths ::
  "(string \<Rightarrow> (string list \<times> string) option) \<Rightarrow> string \<Rightarrow> nat \<Rightarrow> (string list \<times> string) option" where
  "tryLengths k s 0 = None"
| "tryLengths k s (Suc n) =
     (case k (drop (Suc n) s) of
        Some (gs, rest) \<Rightarrow> Some (take (Suc n) s # gs, rest)
      | None \<Rightarrow> tryLengths k s n)"

fun backtrack :: "item list \<Rightarrow> string \<Rightarrow> (string list \<times> string) option" where
  "backtrack [] s = Some ([], s)"
| "backtrack (One p # items) s =
     (case s of
        [] \<Rightarrow> None
      | c # cs \<Rightarrow>
          if p c then (case backtrack items cs of
                         Some (gs, rest) \<Rightarrow> Some ([c] # gs, rest)
                       | None \<Rightarrow> None)
          else None)"
| "backtrack (Many p # items) s =
     tryLengths (\<lambda>t. backtrack items t) s (length (takeWhile p s))"

text \<open>\<^verbatim>\<open>\((\d+):([^:]+):(\d+)\)\<close>\<close>

definition keyPattern :: "item list" where
  "keyPattern =
     [One (\<lambda>c. c = CHR ''(''), Many isDigit, One (\<lambda>c. c = CHR '':''),
      Many (\<lambda>c. c \<noteq> CHR '':''), One (\<lambda>c. c = CHR '':''), Many isDigit,
      One (\<lambda>c. c = CHR '')'')]"


text \<open>
  One match of the pattern at the head of \<open>s\<close>, in direct form: the three captured fields
  and the text after the match. Each \<^verbatim>\<open>+\<close> is greedy, and the character the pattern
  demands after it is outside the repeated class (a colon or a closing parenthesis after
  digits, a colon after non-colons), so giving characters back can never help and the
  longest run is the only candidate; \<open>matchHere_backtrack\<close> below proves that this is
  the result of the backtracking search.
\<close>

definition matchHere :: "string \<Rightarrow> ((string \<times> string \<times> string) \<times> string) option" where
  "matchHere s =
     (case s of
        [] \<Rightarrow> None
      | c0 # r0 \<Rightarrow>
          if c0 \<noteq> CHR ''('' then None
          else let g1 = takeWhile isDigit r0; r1 = dropWhile isDigit r0
          in if g1 = [] then None
          else (case r1 of
             [] \<Rightarrow> None
           | c1 # r2 \<Rightarrow>
               if c1 \<noteq> CHR '':'' then None
               else let g2 = takeWhile (\<lambda>c. c \<noteq> CHR '':'') r2;
                        r3 = dropWhile (\<lambda>c. c \<noteq> CHR '':'') r2
               in if g2 = [] then None
               else (case r3 of
                  [] \<Rightarrow> None
                | c3 # r4 \<Rightarrow>
                    if c3 \<noteq> CHR '':'' then None
                    else let g3 = takeWhile isDigit r4; r5 = dropWhile isDigit r4
                    in if g3 = [] then None
                    else (case r5 of
                       [] \<Rightarrow> None
                     | c5 # r6 \<Rightarrow>
                         if c5 \<noteq> CHR '')'' then None else Some ((g1, g2, g3), r6)))))"

text \<open>
  \<^verbatim>\<open>message.match(/.../g)\<close>: the matched texts from left to right, each search starting
  where the previous match ended.
\<close>

function globalMatch :: "string \<Rightarrow> string list" where
  "globalMatch [] = []"
| "globalMatch (c # cs) =
     (case matchHere (c # cs) of
        Some (g, rest) \<Rightarrow> take (length (c # cs) - length rest) (c # cs) # globalMatch rest
      | None \<Rightarrow> globalMatch cs)"
  by pat_completeness auto
termination
proof (relation "measure length")
  show "wf (measure length)" by simp
next
  fix c :: char and cs :: string and found g rest
  assume m: "matchHere (c # cs) = Some found" and f: "(g, rest) = found"
  have shorter: "\<And>P (xs :: string) z zs. dropWhile P xs = z # zs \<Longrightarrow> length zs < length xs"
    by (metis length_dropWhile_le length_Cons less_eq_Suc_le)
  from m f have "length rest < length (c # cs)"
    by (auto simp: matchHere_def Let_def split: list.splits if_splits dest!: shorter)
  then show "(rest, c # cs) \<in> measure length" by simp
next
  fix c :: char and cs :: string
  show "(cs, c # cs) \<in> measure length" by simp
qed

text \<open>The result is \<^verbatim>\<open>null\<close> when nothing matches.\<close>

definition keyMatches :: "string \<Rightarrow> string list option" where
  "keyMatches msg = (case globalMatch msg of [] \<Rightarrow> None | m # ms \<Rightarrow> Some (m # ms))"

text \<open>\<^verbatim>\<open>match.match(/.../)\<close> without the global flag: the fields of the leftmost match.\<close>

fun matchFirst :: "string \<Rightarrow> (string \<times> string \<times> string) option" where
  "matchFirst [] = None"
| "matchFirst (c # cs) =
     (case matchHere (c # cs) of Some (g, rest) \<Rightarrow> Some g | None \<Rightarrow> matchFirst cs)"

definition digitVal :: "char \<Rightarrow> nat" where
  "digitVal c = of_char c - 48"

text \<open>
  \<^verbatim>\<open>parseInt\<close> on the text of a \<^verbatim>\<open>\d+\<close> field, exact for every length (JavaScript
  rounds beyond \<open>2^53\<close>).
\<close>

definition parseInt :: "string \<Rightarrow> nat" where
  "parseInt ds = foldl (\<lambda>n c. 10 * n + digitVal c) 0 (takeWhile isDigit ds)"

text \<open>
  The destructuring \<^verbatim>\<open>[, keyCode, analogValue, isPressed] = match.match(/.../) || []\<close>.
  Where the second match fails the source binds \<^verbatim>\<open>undefined\<close>; the model binds empty
  fields there (\<open>matchFirst_groupText\<close> below shows that this never happens for a text
  found by \<open>globalMatch\<close>).
\<close>

definition fieldsOf :: "string \<Rightarrow> string \<times> string \<times> string" where
  "fieldsOf m = (case matchFirst m of Some g \<Rightarrow> g | None \<Rightarrow> ([], [], []))"

text \<open>
  The callback of \<^verbatim>\<open>keyMatches.map\<close>. \<open>parseFloat\<close> is the host's function of that
  name, a parameter of the model.
\<close>

definition parseKey :: "(string \<Rightarrow> real) \<Rightarrow> string \<Rightarrow> KeyData" where
  "parseKey parseFloat m =
     (case fieldsOf m of
        (kc, av, ip) \<Rightarrow>
          \<lparr>KeyData.keyCode = parseInt kc, analogValue = parseFloat av, isPressed = parseInt ip\<rparr>)"

text \<open>The list handed to \<^verbatim>\<open>setKeyData\<close>, or \<open>None\<close> when it is not called.\<close>

definition parsedKeys :: "(string \<Rightarrow> real) \<Rightarrow> string \<Rightarrow> KeyData list option" where
  "parsedKeys parseFloat msg =
     (if msg = [] then None
      else case keyMatches msg of
             None \<Rightarrow> None
           | Some ms \<Rightarrow> Some (map (parseKey parseFloat) ms))"

text \<open>The value of the state \<^verbatim>\<open>keyData\<close> after a message.\<close>

definition onmessage :: "(string \<Rightarrow> real) \<Rightarrow> string \<Rightarrow> KeyData list \<Rightarrow> KeyData list" where
  "onmessage parseFloat msg keyData =
     (case parsedKeys parseFloat msg of None \<Rightarrow> keyData | Some ks \<Rightarrow> ks)"

text \<open>The number of records a message emits.\<close>

definition emittedCount :: "(string \<Rightarrow> real) \<Rightarrow> string \<Rightarrow> nat" where
  "emittedCount parseFloat msg =
     (case parsedKeys parseFloat msg of None \<Rightarrow> 0 | Some ks \<Rightarrow> length ks)"

text \<open>
  A reader of unsigned decimal literals \<^verbatim>\<open>d+\<close> and \<^verbatim>\<open>d+.d*\<close>, on which it agrees with
  \<^verbatim>\<open>parseFloat\<close>. It instantiates the parameter in the examples.
\<close>

definition readDecimal :: "string \<Rightarrow> real" where
  "readDecimal a =
     (case dropWhile isDigit a of
        [] \<Rightarrow> real (parseInt a)
      | c # fr \<Rightarrow>
          if c = CHR ''.''
          then real (parseInt a) + real (parseInt fr) / 10 ^ length (takeWhile isDigit fr)
          else real (parseInt a))"

subsection \<open>The wire format as the specification words it\<close>

text \<open>
  A decimal in \<open>[0, 1]\<close>: digits, optionally a point and more digits, of value at most 1.
\<close>

definition isDecimal01 :: "string \<Rightarrow> bool" where
  "isDecimal01 a =
     (takeWhile isDigit a \<noteq> [] \<and>
      (case dropWhile isDigit a of
         [] \<Rightarrow> True
       | c # fr \<Rightarrow> c = CHR ''.'' \<and> fr \<noteq> [] \<and> list_all isDigit fr) \<and>
      readDecimal a \<le> 1)"

text \<open>
  A syntactically valid group at the head of \<open>s\<close>: \<^verbatim>\<open>(keyCode:analogValue:pressedFlag)\<close>
  with \<^verbatim>\<open>keyCode\<close> and \<^verbatim>\<open>pressedFlag\<close> non-negative integers and \<^verbatim>\<open>analogValue\<close> a
  decimal in \<open>[0, 1]\<close>.
\<close>

definition validGroupHere :: "string \<Rightarrow> (string \<times> string \<times> string) option" where
  "validGroupHere s =
     (case matchHere s of
        None \<Rightarrow> None
      | Some ((kc, av, ip), rest) \<Rightarrow> if isDecimal01 av then Some (kc, av, ip) else None)"

text \<open>The valid groups of a payload, one for every position where one begins.\<close>

fun validGroups :: "string \<Rightarrow> (string \<times> string \<times> string) list" where
  "validGroups [] = []"
| "validGroups (c # cs) =
     (case validGroupHere (c # cs) of
        Some g \<Rightarrow> g # validGroups cs
      | None \<Rightarrow> validGroups cs)"

text \<open>A found group is valid when its middle field is a decimal in \<open>[0, 1]\<close>.\<close>

definition validMatch :: "string \<Rightarrow> bool" where
  "validMatch m = isDecimal01 (fst (snd (fieldsOf m)))"

subsection \<open>The shape of a match\<close>

text \<open>The seven texts matched by the items of the pattern, for the three fields.\<close>

definition segments :: "string \<times> string \<times> string \<Rightarrow> string list" where
  "segments g = (case g of (g1, g2, g3) \<Rightarrow> [''('', g1, '':'', g2, '':'', g3, '')''])"

text \<open>The text of a group with the given fields, and what the pattern asks of the fields.\<close>

definition groupText :: "string \<times> string \<times> string \<Rightarrow> string" where
  "groupText g =
     (case g of (g1, g2, g3) \<Rightarrow> CHR ''('' # g1 @ CHR '':'' # g2 @ CHR '':'' # g3 @ [CHR '')''])"

definition looseFields :: "string \<times> string \<times> string \<Rightarrow> bool" where
  "looseFields g =
     (case g of (g1, g2, g3) \<Rightarrow>
        g1 \<noteq> [] \<and> list_all isDigit g1 \<and>
        g2 \<noteq> [] \<and> list_all (\<lambda>c. c \<noteq> CHR '':'') g2 \<and>
        g3 \<noteq> [] \<and> list_all isDigit g3)"

section \<open>Runs and scenarios\<close>

text \<open>A series of telemetry updates, each with the time at which the effect runs.\<close>

fun run_dwell :: "(KeyData list \<times> nat) list \<Rightarrow> DwellTest \<Rightarrow> DwellTest" where
  "run_dwell [] s = s"
| "run_dwell ((keyData, now) # us) s = run_dwell us (evaluate_dwell keyData now s)"

fun run_peak :: "(KeyData list \<times> nat) list \<Rightarrow> PeakTest \<Rightarrow> PeakTest" where
  "run_peak [] s = s"
| "run_peak ((keyData, now) # us) s = run_peak us (evaluate_peak keyData now s)"

text \<open>The snapshot reports the key \<open>code\<close> pressed and no other key pressed.\<close>

definition targetOnly :: "nat \<Rightarrow> KeyData list \<Rightarrow> bool" where
  "targetOnly code keyData =
     ((\<exists>k \<in> set keyData. KeyData.keyCode k = code \<and> isPressed k = 1) \<and>
      (\<forall>k \<in> set keyData. isPressed k = 1 \<longrightarrow> KeyData.keyCode k = code))"

text \<open>Sample data: two targets, fresh sessions of both variants, one snapshot.\<close>

definition targetF :: TestSequence where
  "targetF = \<lparr>key = ''f'', keyCode = 9, targetPressure = 60\<rparr>"

definition targetJ :: TestSequence where
  "targetJ = \<lparr>key = ''j'', keyCode = 13, targetPressure = 60\<rparr>"

definition dwellStart :: DwellTest where
  "dwellStart =
     \<lparr>testSequence = [targetF, targetJ], currentIndex = 0, isTestActive = True,
      cooldownUntil = None, testStats = zeroStats, timers = [], attemptLog = [],
      holdStartTime = None\<rparr>"

definition peakStart :: PeakTest where
  "peakStart =
     \<lparr>testSequence = [targetF, targetJ], currentIndex = 0, isTestActive = True,
      cooldownUntil = None, testStats = zeroStats, timers = [], attemptLog = [],
      levelCount = 3, maxAnalog = 0, keyHeld = False\<rparr>"

definition snapshot :: "nat \<Rightarrow> real \<Rightarrow> nat \<Rightarrow> KeyData" where
  "snapshot c a p = \<lparr>KeyData.keyCode = c, analogValue = a, isPressed = p\<rparr>"

text \<open>A sample random source with all draws in \<open>[0, 1)\<close>.\<close>

definition sampleDraws :: "nat \<Rightarrow> real" where
  "sampleDraws k = real (k mod 7) / 7"

definition zeroDraws :: "nat \<Rightarrow> real" where
  "zeroDraws k = 0"

text \<open>
  A run of the peak variant: the target \<open>f\<close> is held at 0.5, the key \<open>s\<close> joins it, both
  keys are released during the cooldown, and the scheduled advance runs at its time.
\<close>

definition peakDecoy :: PeakTest where
  "peakDecoy =
     timerFires 4100
       (run_peak [([snapshot 9 (1 / 2) 1], 1000),
                  ([snapshot 9 (1 / 2) 1, snapshot 22 (9 / 10) 1], 1100),
                  ([snapshot 9 0 0, snapshot 22 0 0], 2000)] peakStart)"

text \<open>
  The advance changes the index, so the effect runs again, with the snapshot received
  last.
\<close>

definition peakDecoyReleased :: PeakTest where
  "peakDecoyReleased = evaluate_peak [snapshot 9 0 0, snapshot 22 0 0] 4100 peakDecoy"

text \<open>Sessions of both variants in which a wrong key was pressed at time 1000.\<close>

definition dwellAttempted :: DwellTest where
  "dwellAttempted = evaluate_dwell [snapshot 22 (9 / 10) 1] 1000 dwellStart"

definition peakAttempted :: PeakTest where
  "peakAttempted = evaluate_peak [snapshot 22 (9 / 10) 1] 1000 peakStart"

section \<open>Properties of the statistics\<close>

lemma updateStats_fields:
  "totalAttempts (updateStats d ok st) = totalAttempts st + 1"
  "successfulHits (updateStats d ok st) = successfulHits st + (if ok then 1 else 0)"
  "accuracy (updateStats d ok st) =
     real (successfulHits st + (if ok then 1 else 0)) / real (totalAttempts st + 1) * 100"
  "averageDeviation (updateStats d ok st) =
     (averageDeviation st * real (totalAttempts st) + d) / real (totalAttempts st + 1)"
  by (simp_all add: updateStats_def Let_def)

lemma recordAll_snoc:
  "recordAll st (as @ [(d, ok)]) = updateStats d ok (recordAll st as)"
  by (induction as arbitrary: st) auto

lemma recordAll_total: "totalAttempts (recordAll st as) = totalAttempts st + length as"
  by (induction as arbitrary: st) (auto simp: updateStats_fields)

lemma recordAll_hits:
  "successfulHits (recordAll st as) = successfulHits st + length (filter snd as)"
  by (induction as arbitrary: st) (auto simp: updateStats_fields)

lemma recordAll_accuracy:
  "as \<noteq> [] \<Longrightarrow> accuracy (recordAll st as) =
     real (successfulHits (recordAll st as)) / real (totalAttempts (recordAll st as)) * 100"
proof (induction as rule: rev_induct)
  case Nil
  then show ?case by simp
next
  case (snoc a as)
  obtain d ok where a: "a = (d, ok)" by (cases a)
  show ?case unfolding a recordAll_snoc by (simp add: updateStats_fields)
qed

lemma recordAll_avg_sum:
  "averageDeviation (recordAll zeroStats as) * real (length as) = sum_list (map fst as)"
proof (induction as rule: rev_induct)
  case Nil
  then show ?case by (simp add: zeroStats_def)
next
  case (snoc a as)
  obtain d ok where a: "a = (d, ok)" by (cases a)
  have t: "totalAttempts (recordAll zeroStats as) = length as"
    by (simp add: recordAll_total zeroStats_def)
  show ?case unfolding a recordAll_snoc using snoc.IH
    by (simp add: updateStats_fields t)
qed

text \<open>
  C4. After any series of recorded attempts, starting from the zeroed statistics, the
  accuracy is \<open>successfulHits / totalAttempts * 100\<close> when there was an attempt and 0
  otherwise, the average deviation is the arithmetic mean of the recorded deviations, and
  one more record updates it as \<open>(prevAvg * prevTotal + deviation) / newTotal\<close>. Numbers
  are real numbers here; the rounding of doubles is not modelled.
\<close>

theorem running_stats_invariant:
  "totalAttempts (recordAll zeroStats as) = length as
   \<and> successfulHits (recordAll zeroStats as) = length (filter snd as)
   \<and> accuracy (recordAll zeroStats as) =
       (if 0 < totalAttempts (recordAll zeroStats as)
        then real (successfulHits (recordAll zeroStats as))
               / real (totalAttempts (recordAll zeroStats as)) * 100
        else 0)
   \<and> averageDeviation (recordAll zeroStats as) =
       (if as = [] then 0 else sum_list (map fst as) / real (length as))
   \<and> averageDeviation (updateStats d ok (recordAll zeroStats as)) =
       (averageDeviation (recordAll zeroStats as) * real (totalAttempts (recordAll zeroStats as)) + d)
         / real (totalAttempts (recordAll zeroStats as) + 1)"
proof -
  have t: "totalAttempts (recordAll zeroStats as) = length as"
    by (simp add: recordAll_total zeroStats_def)
  have h: "successfulHits (recordAll zeroStats as) = length (filter snd as)"
    by (simp add: recordAll_hits zeroStats_def)
  have a: "accuracy (recordAll zeroStats as) =
       (if 0 < totalAttempts (recordAll zeroStats as)
        then real (successfulHits (recordAll zeroStats as))
               / real (totalAttempts (recordAll zeroStats as)) * 100
        else 0)"
  proof (cases "as = []")
    case True
    then show ?thesis by (simp add: zeroStats_def)
  next
    case False
    then show ?thesis using recordAll_accuracy[OF False, of zeroStats] t by simp
  qed
  have m: "averageDeviation (recordAll zeroStats as) =
       (if as = [] then 0 else sum_list (map fst as) / real (length as))"
  proof (cases "as = []")
    case True
    then show ?thesis by (simp add: zeroStats_def)
  next
    case False
    then have "real (length as) \<noteq> 0" by simp
    then show ?thesis using recordAll_avg_sum[of as] False
      by (simp add: nonzero_eq_divide_eq)
  qed
  show ?thesis using t h a m by (simp add: updateStats_fields)
qed

theorem running_stats_invariant_witness:
  "totalAttempts (recordAll zeroStats [(1, True), (35, False), (100, False)]) = 3
   \<and> successfulHits (recordAll zeroStats [(1, True), (35, False), (100, False)]) = 1
   \<and> accuracy (recordAll zeroStats [(1, True), (35, False), (100, False)]) = 100 / 3
   \<and> averageDeviation (recordAll zeroStats [(1, True), (35, False), (100, False)]) = 136 / 3"
  using running_stats_invariant [of "[(1, True), (35, False), (100, False)]" 0 False]
  by simp

section \<open>The dwell evaluation\<close>

lemma coolingDown_later: "\<not> coolingDown cd t \<Longrightarrow> t \<le> t' \<Longrightarrow> \<not> coolingDown cd t'"
  by (auto simp: coolingDown_def split: option.splits)

lemma targetOnly_wrong:
  "targetOnly code keyData \<Longrightarrow>
     find (\<lambda>k. KeyData.keyCode k \<noteq> code \<and> isPressed k = 1) keyData = None"
  by (auto simp: targetOnly_def find_None_iff)

lemma targetOnly_correct:
  "targetOnly code keyData \<Longrightarrow>
     \<exists>k. find (\<lambda>k. KeyData.keyCode k = code \<and> isPressed k = 1) keyData = Some k"
  by (cases "find (\<lambda>k. KeyData.keyCode k = code \<and> isPressed k = 1) keyData")
     (auto simp: targetOnly_def find_None_iff)

lemma dwell_first_contact:
  assumes "isTestActive s" "currentIndex s < length (testSequence s)"
    "\<not> coolingDown (cooldownUntil s) now" "\<not> truthy (holdStartTime s)"
    "targetOnly (TestSequence.keyCode (testSequence s ! currentIndex s)) keyData"
  shows "evaluate_dwell keyData now s = s\<lparr>holdStartTime := Some now\<rparr>"
  using assms(1-4) targetOnly_wrong[OF assms(5)] targetOnly_correct[OF assms(5)]
  by (auto simp: evaluate_dwell_def Let_def)

lemma dwell_keep_holding:
  assumes "isTestActive s" "currentIndex s < length (testSequence s)"
    "\<not> coolingDown (cooldownUntil s) now" "holdStartTime s = Some t0" "0 < t0"
    "now < t0 + 750"
    "targetOnly (TestSequence.keyCode (testSequence s ! currentIndex s)) keyData"
  shows "evaluate_dwell keyData now s = s"
  using assms(1-6) targetOnly_wrong[OF assms(7)] targetOnly_correct[OF assms(7)]
  by (auto simp: evaluate_dwell_def Let_def truthy_def)

lemma dwell_expiry:
  assumes "isTestActive s" "currentIndex s < length (testSequence s)"
    "\<not> coolingDown (cooldownUntil s) now" "holdStartTime s = Some t0" "0 < t0"
    "t0 + 750 \<le> now"
    "targetOnly (TestSequence.keyCode (testSequence s ! currentIndex s)) keyData"
    "find (\<lambda>k. KeyData.keyCode k = TestSequence.keyCode (testSequence s ! currentIndex s)
               \<and> isPressed k = 1) keyData = Some k"
  shows "evaluate_dwell keyData now s =
           handleAttempt_dwell \<bar>analogValue k * 100 - targetPressure (testSequence s ! currentIndex s)\<bar>
             (\<bar>analogValue k * 100 - targetPressure (testSequence s ! currentIndex s)\<bar> \<le> 10)
             (if \<bar>analogValue k * 100 - targetPressure (testSequence s ! currentIndex s)\<bar> \<le> 10
              then ''Perfect!'' else ''Wrong pressure!'') now s"
  using assms(1-6,8) targetOnly_wrong[OF assms(7)]
  by (auto simp: evaluate_dwell_def Let_def truthy_def)

lemma run_dwell_holding:
  assumes "isTestActive s" "currentIndex s < length (testSequence s)"
    "holdStartTime s = Some t0" "0 < t0"
    "\<forall>(keyData, now) \<in> set us. \<not> coolingDown (cooldownUntil s) now \<and> now < t0 + 750 \<and>
        targetOnly (TestSequence.keyCode (testSequence s ! currentIndex s)) keyData"
  shows "run_dwell us s = s"
  using assms(5)
proof (induction us)
  case Nil
  then show ?case by simp
next
  case (Cons u us)
  obtain keyData now where u: "u = (keyData, now)" by (cases u)
  have "evaluate_dwell keyData now s = s"
    using dwell_keep_holding[OF assms(1,2) _ assms(3,4)] Cons.prems u by auto
  then show ?case using Cons u by simp
qed

lemma run_dwell_append: "run_dwell (us @ vs) s = run_dwell vs (run_dwell us s)"
  by (induction us arbitrary: s) auto

text \<open>
  C1 (dwell variant). The session is active with a target in range, no hold start is
  recorded and no cooldown is in force. The effect runs at \<open>t0 > 0\<close>, then at times before
  \<open>t0 + 750\<close>, then at \<open>tN \<ge> t0 + 750\<close>, and every one of these updates reports the target
  key pressed and no other key pressed. Then the first update records \<open>t0\<close> as the hold
  start, the updates before expiry change nothing, and the update at \<open>tN\<close> resolves the
  attempt: the deviation is \<open>|analogValue * 100 - targetPressure|\<close> for the sample \<open>k\<close> taken
  at \<open>tN\<close>, the attempt succeeds iff the deviation is at most 10, and the reason is
  \<^verbatim>\<open>Perfect!\<close> on success and \<^verbatim>\<open>Wrong pressure!\<close> otherwise.
\<close>

theorem dwell_resolves_at_expiry:
  assumes active: "isTestActive s"
    and inRange: "currentIndex s < length (testSequence s)"
    and target: "target = testSequence s ! currentIndex s"
    and idle: "\<not> truthy (holdStartTime s)"
    and notCooling: "\<not> coolingDown (cooldownUntil s) t0"
    and first: "0 < t0" "targetOnly (TestSequence.keyCode target) kd0"
    and mids: "\<forall>(kd, t) \<in> set mids. t0 \<le> t \<and> t < t0 + 750
                 \<and> targetOnly (TestSequence.keyCode target) kd"
    and expiry: "t0 + 750 \<le> tN" "targetOnly (TestSequence.keyCode target) kdN"
    and sample: "find (\<lambda>k. KeyData.keyCode k = TestSequence.keyCode target \<and> isPressed k = 1) kdN
                   = Some k"
    and dev: "dev = \<bar>analogValue k * 100 - targetPressure target\<bar>"
  shows "run_dwell ((kd0, t0) # mids) s = s\<lparr>holdStartTime := Some t0\<rparr>
       \<and> attemptLog (run_dwell ((kd0, t0) # mids @ [(kdN, tN)]) s) =
           attemptLog s @ [\<lparr>deviation = dev, isSuccess = (dev \<le> 10),
                             message = (if dev \<le> 10 then ''Perfect!'' else ''Wrong pressure!'')\<rparr>]
       \<and> cooldownUntil (run_dwell ((kd0, t0) # mids @ [(kdN, tN)]) s) = Some (tN + 3000)
       \<and> holdStartTime (run_dwell ((kd0, t0) # mids @ [(kdN, tN)]) s) = None"
proof -
  let ?h = "s\<lparr>holdStartTime := Some t0\<rparr>"
  have s1: "evaluate_dwell kd0 t0 s = ?h"
    using dwell_first_contact[OF active inRange notCooling idle] first(2) target by simp
  have hA: "isTestActive ?h" and hR: "currentIndex ?h < length (testSequence ?h)"
    and hH: "holdStartTime ?h = Some t0"
    using active inRange by simp_all
  have hM: "\<forall>(kd, t) \<in> set mids. \<not> coolingDown (cooldownUntil ?h) t \<and> t < t0 + 750 \<and>
        targetOnly (TestSequence.keyCode (testSequence ?h ! currentIndex ?h)) kd"
    using mids coolingDown_later[OF notCooling] target by auto
  have s2: "run_dwell mids ?h = ?h"
    by (rule run_dwell_holding[OF hA hR hH first(1) hM])
  have pre: "run_dwell ((kd0, t0) # mids) s = ?h"
    using s1 s2 by simp
  have nc: "\<not> coolingDown (cooldownUntil ?h) tN"
    using coolingDown_later[OF notCooling, of tN] expiry(1) by simp
  have tO: "targetOnly (TestSequence.keyCode (testSequence ?h ! currentIndex ?h)) kdN"
    using expiry(2) target by simp
  have fS: "find (\<lambda>k. KeyData.keyCode k = TestSequence.keyCode (testSequence ?h ! currentIndex ?h)
               \<and> isPressed k = 1) kdN = Some k"
    using sample target by simp
  have s3: "evaluate_dwell kdN tN ?h =
     handleAttempt_dwell dev (dev \<le> 10)
       (if dev \<le> 10 then ''Perfect!'' else ''Wrong pressure!'') tN ?h"
    using dwell_expiry[OF hA hR nc hH first(1) expiry(1) tO fS] dev target by simp
  have all: "run_dwell ((kd0, t0) # mids @ [(kdN, tN)]) s =
     handleAttempt_dwell dev (dev \<le> 10)
       (if dev \<le> 10 then ''Perfect!'' else ''Wrong pressure!'') tN ?h"
    using run_dwell_append[of "(kd0, t0) # mids" "[(kdN, tN)]" s] pre s3 by simp
  show ?thesis
    unfolding all using pre by (simp add: handleAttempt_dwell_def handleAttempt_def)
qed

text \<open>
  The scenarios of the specification: target \<open>f\<close> at 60, held at 0.61 over 750 ms, gives
  deviation 1 and \<^verbatim>\<open>Perfect!\<close>; held at 0.95 it gives deviation 35 and \<^verbatim>\<open>Wrong pressure!\<close>.
\<close>

theorem dwell_resolves_at_expiry_witness:
  "attemptLog (run_dwell [([snapshot 9 (61 / 100) 1], 1000), ([snapshot 9 (61 / 100) 1], 1400),
                           ([snapshot 9 (61 / 100) 1], 1750)] dwellStart) =
     [\<lparr>deviation = 1, isSuccess = True, message = ''Perfect!''\<rparr>]
   \<and> attemptLog (run_dwell [([snapshot 9 (95 / 100) 1], 1000), ([snapshot 9 (95 / 100) 1], 1400),
                           ([snapshot 9 (95 / 100) 1], 1750)] dwellStart) =
     [\<lparr>deviation = 35, isSuccess = False, message = ''Wrong pressure!''\<rparr>]"
proof -
  have a: "isTestActive dwellStart" "currentIndex dwellStart < length (testSequence dwellStart)"
    "targetF = testSequence dwellStart ! currentIndex dwellStart"
    "\<not> truthy (holdStartTime dwellStart)" "\<not> coolingDown (cooldownUntil dwellStart) 1000"
    by (simp_all add: dwellStart_def truthy_def coolingDown_def)
  have t: "(0::nat) < 1000" "(1000::nat) + 750 \<le> 1750" by simp_all
  have o: "\<And>a. targetOnly (TestSequence.keyCode targetF) [snapshot 9 a 1]"
    by (simp add: targetOnly_def targetF_def snapshot_def)
  have m: "\<And>a. \<forall>(kd, t) \<in> set [([snapshot 9 a 1], 1400)]. (1000::nat) \<le> t \<and> t < 1000 + 750
                 \<and> targetOnly (TestSequence.keyCode targetF) kd"
    using o by simp
  have f: "\<And>a. find (\<lambda>k. KeyData.keyCode k = TestSequence.keyCode targetF \<and> isPressed k = 1)
               [snapshot 9 a 1] = Some (snapshot 9 a 1)"
    by (simp add: targetF_def snapshot_def)
  have d1: "(1::real) = \<bar>analogValue (snapshot 9 (61 / 100) 1) * 100 - targetPressure targetF\<bar>"
    by (simp add: snapshot_def targetF_def)
  have d2: "(35::real) = \<bar>analogValue (snapshot 9 (95 / 100) 1) * 100 - targetPressure targetF\<bar>"
    by (simp add: snapshot_def targetF_def)
  have l: "attemptLog dwellStart = []" by (simp add: dwellStart_def)
  from dwell_resolves_at_expiry [OF a(1,2,3,4,5) t(1) o m t(2) o f d1]
  have r1: "attemptLog (run_dwell (([snapshot 9 (61 / 100) 1], 1000) # [([snapshot 9 (61 / 100) 1], 1400)]
                           @ [([snapshot 9 (61 / 100) 1], 1750)]) dwellStart) =
     attemptLog dwellStart @ [\<lparr>deviation = 1, isSuccess = ((1::real) \<le> 10),
         message = (if (1::real) \<le> 10 then ''Perfect!'' else ''Wrong pressure!'')\<rparr>]"
    by blast
  from dwell_resolves_at_expiry [OF a(1,2,3,4,5) t(1) o m t(2) o f d2]
  have r2: "attemptLog (run_dwell (([snapshot 9 (95 / 100) 1], 1000) # [([snapshot 9 (95 / 100) 1], 1400)]
                           @ [([snapshot 9 (95 / 100) 1], 1750)]) dwellStart) =
     attemptLog dwellStart @ [\<lparr>deviation = 35, isSuccess = ((35::real) \<le> 10),
         message = (if (35::real) \<le> 10 then ''Perfect!'' else ''Wrong pressure!'')\<rparr>]"
    by blast
  have e1: "attemptLog (run_dwell [([snapshot 9 (61 / 100) 1], 1000), ([snapshot 9 (61 / 100) 1], 1400),
                           ([snapshot 9 (61 / 100) 1], 1750)] dwellStart) =
     [\<lparr>deviation = 1, isSuccess = True, message = ''Perfect!''\<rparr>]"
    using r1 l by simp
  have e2: "attemptLog (run_dwell [([snapshot 9 (95 / 100) 1], 1000), ([snapshot 9 (95 / 100) 1], 1400),
                           ([snapshot 9 (95 / 100) 1], 1750)] dwellStart) =
     [\<lparr>deviation = 35, isSuccess = False, message = ''Wrong pressure!''\<rparr>]"
    using r2 l by simp
  from e1 e2 show ?thesis by blast
qed

text \<open>The hold start is cleared by an update that reports no key pressed.\<close>

lemma dwell_release_clears:
  assumes "isTestActive s" "currentIndex s < length (testSequence s)"
    "\<not> coolingDown (cooldownUntil s) now"
    "\<forall>k \<in> set keyData. isPressed k \<noteq> 1"
  shows "evaluate_dwell keyData now s = s\<lparr>holdStartTime := None\<rparr>"
proof -
  have "find (\<lambda>k. KeyData.keyCode k \<noteq> TestSequence.keyCode (testSequence s ! currentIndex s)
                  \<and> isPressed k = 1) keyData = None"
       "find (\<lambda>k. KeyData.keyCode k = TestSequence.keyCode (testSequence s ! currentIndex s)
                  \<and> isPressed k = 1) keyData = None"
    using assms(4) by (auto simp: find_None_iff)
  then show ?thesis using assms(1-3) by (simp add: evaluate_dwell_def Let_def)
qed

section \<open>Wrong keys\<close>

lemma handleAttempt_log:
  "attemptLog (handleAttempt dev ok msg now s) =
     attemptLog s @ [\<lparr>deviation = dev, isSuccess = ok, message = msg\<rparr>]"
  by (simp add: handleAttempt_def)

text \<open>
  C2 (both variants). While the session is active, the index is in range and no cooldown
  is in force, an update in which some key other than the target's is reported pressed
  (flag 1) resolves the attempt in that very update as a failure with deviation 100 and
  reason \<^verbatim>\<open>Wrong key!\<close>, whatever the snapshot says about the target key and whatever the
  hold state is.
\<close>

theorem wrong_key_resolves_at_once:
  assumes "isTestActive s" and "currentIndex s < length (testSequence s)"
    and "\<not> coolingDown (cooldownUntil s) now"
    and "isTestActive p" and "currentIndex p < length (testSequence p)"
    and "\<not> coolingDown (cooldownUntil p) now"
    and "w \<in> set keyData" and "isPressed w = 1"
    and "KeyData.keyCode w \<noteq> TestSequence.keyCode (testSequence s ! currentIndex s)"
    and "KeyData.keyCode w \<noteq> TestSequence.keyCode (testSequence p ! currentIndex p)"
  shows "evaluate_dwell keyData now s = handleAttempt_dwell 100 False ''Wrong key!'' now s
       \<and> attemptLog (evaluate_dwell keyData now s) =
           attemptLog s @ [\<lparr>deviation = 100, isSuccess = False, message = ''Wrong key!''\<rparr>]
       \<and> evaluate_peak keyData now p = handleAttempt 100 False ''Wrong key!'' now p
       \<and> attemptLog (evaluate_peak keyData now p) =
           attemptLog p @ [\<lparr>deviation = 100, isSuccess = False, message = ''Wrong key!''\<rparr>]"
proof -
  have d: "find (\<lambda>k. KeyData.keyCode k \<noteq> TestSequence.keyCode (testSequence s ! currentIndex s)
                     \<and> isPressed k = 1) keyData \<noteq> None"
    using assms(7,8,9) by (auto simp: find_None_iff)
  have q: "find (\<lambda>k. KeyData.keyCode k \<noteq> TestSequence.keyCode (testSequence p ! currentIndex p)
                     \<and> isPressed k \<noteq> 0) keyData \<noteq> None"
    using assms(7,8,10) by (auto simp: find_None_iff)
  have e1: "evaluate_dwell keyData now s = handleAttempt_dwell 100 False ''Wrong key!'' now s"
    using assms(1,2,3) d by (auto simp: evaluate_dwell_def Let_def split: option.splits)
  have e2: "evaluate_peak keyData now p = handleAttempt 100 False ''Wrong key!'' now p"
    using assms(4,5,6) q by (auto simp: evaluate_peak_def Let_def split: option.splits)
  show ?thesis
    unfolding e1 e2 by (simp add: handleAttempt_dwell_def handleAttempt_log)
qed

theorem wrong_key_resolves_at_once_witness:
  "attemptLog (evaluate_dwell [snapshot 22 (9 / 10) 1] 1000 dwellStart) =
     [\<lparr>deviation = 100, isSuccess = False, message = ''Wrong key!''\<rparr>]
   \<and> attemptLog (evaluate_peak [snapshot 22 (9 / 10) 1] 1000 peakStart) =
     [\<lparr>deviation = 100, isSuccess = False, message = ''Wrong key!''\<rparr>]"
proof -
  have d: "isTestActive dwellStart" "currentIndex dwellStart < length (testSequence dwellStart)"
    "\<not> coolingDown (cooldownUntil dwellStart) 1000"
    by (simp_all add: dwellStart_def coolingDown_def)
  have p: "isTestActive peakStart" "currentIndex peakStart < length (testSequence peakStart)"
    "\<not> coolingDown (cooldownUntil peakStart) 1000"
    by (simp_all add: peakStart_def coolingDown_def)
  have w: "snapshot 22 (9 / 10) 1 \<in> set [snapshot 22 (9 / 10) 1]"
    "isPressed (snapshot 22 (9 / 10) 1) = 1"
    "KeyData.keyCode (snapshot 22 (9 / 10) 1)
       \<noteq> TestSequence.keyCode (testSequence dwellStart ! currentIndex dwellStart)"
    "KeyData.keyCode (snapshot 22 (9 / 10) 1)
       \<noteq> TestSequence.keyCode (testSequence peakStart ! currentIndex peakStart)"
    by (simp_all add: snapshot_def dwellStart_def peakStart_def targetF_def)
  have l: "attemptLog dwellStart = []" "attemptLog peakStart = []"
    by (simp_all add: dwellStart_def peakStart_def)
  from wrong_key_resolves_at_once [OF d p w]
  have "attemptLog (evaluate_dwell [snapshot 22 (9 / 10) 1] 1000 dwellStart) =
          attemptLog dwellStart @ [\<lparr>deviation = 100, isSuccess = False, message = ''Wrong key!''\<rparr>]
      \<and> attemptLog (evaluate_peak [snapshot 22 (9 / 10) 1] 1000 peakStart) =
          attemptLog peakStart @ [\<lparr>deviation = 100, isSuccess = False, message = ''Wrong key!''\<rparr>]"
    by blast
  then show ?thesis by (simp add: l)
qed


section \<open>Pause\<close>

text \<open>
  C10 (both variants). \<^verbatim>\<open>pauseTest\<close> clears the active flag and changes nothing else:
  the sequence, the index, the statistics, the hold start, the tracked peak, the held flag,
  the cooldown deadline and the pending advance all stay as they are.
\<close>

theorem pause_changes_only_active:
  fixes s :: DwellTest and p :: PeakTest
  shows "pauseTest s = s\<lparr>isTestActive := False\<rparr>
     \<and> testSequence (pauseTest s) = testSequence s
     \<and> currentIndex (pauseTest s) = currentIndex s
     \<and> testStats (pauseTest s) = testStats s
     \<and> holdStartTime (pauseTest s) = holdStartTime s
     \<and> cooldownUntil (pauseTest s) = cooldownUntil s
     \<and> timers (pauseTest s) = timers s
     \<and> attemptLog (pauseTest s) = attemptLog s
     \<and> \<not> isTestActive (pauseTest s)
     \<and> pauseTest p = p\<lparr>isTestActive := False\<rparr>
     \<and> testSequence (pauseTest p) = testSequence p
     \<and> currentIndex (pauseTest p) = currentIndex p
     \<and> testStats (pauseTest p) = testStats p
     \<and> levelCount (pauseTest p) = levelCount p
     \<and> maxAnalog (pauseTest p) = maxAnalog p
     \<and> keyHeld (pauseTest p) = keyHeld p
     \<and> cooldownUntil (pauseTest p) = cooldownUntil p
     \<and> timers (pauseTest p) = timers p
     \<and> attemptLog (pauseTest p) = attemptLog p
     \<and> \<not> isTestActive (pauseTest p)"
  by (simp add: pauseTest_def)

section \<open>Generated sequences\<close>

lemma pick_in_range:
  assumes "0 \<le> r" "r < 1" "xs \<noteq> []"
  shows "\<exists>x \<in> set xs. pick xs r = Some x"
proof -
  let ?n = "length xs"
  have n: "0 < real ?n" using assms(3) by simp
  have lo: "0 \<le> r * real ?n" using assms(1) by simp
  have hi: "r * real ?n < real ?n" using assms(2) n by simp
  have f0: "0 \<le> \<lfloor>r * real ?n\<rfloor>" using lo by simp
  have f1: "\<lfloor>r * real ?n\<rfloor> < int ?n" using hi by (simp add: floor_less_iff)
  have "nat \<lfloor>r * real ?n\<rfloor> < ?n" using f0 f1 by linarith
  then have m: "xs ! nat \<lfloor>r * real ?n\<rfloor> \<in> set xs" by simp
  have "pick xs r = Some (xs ! nat \<lfloor>r * real ?n\<rfloor>)"
    using f0 f1 by (simp add: pick_def Let_def)
  with m show ?thesis by blast
qed

lemma generateRounds_ok:
  assumes "unitDraws rng" "levels \<noteq> []"
  shows "\<exists>sq. generateRounds levels rng n = Some sq \<and> length sq = n \<and>
           (\<forall>e \<in> set sq. (key e, TestSequence.keyCode e) \<in> set HOME_ROW_KEYS \<and>
                           targetPressure e \<in> set levels)"
proof (induction n)
  case 0
  then show ?case by simp
next
  case (Suc n)
  then obtain sq where sq: "generateRounds levels rng n = Some sq" "length sq = n"
    "\<forall>e \<in> set sq. (key e, TestSequence.keyCode e) \<in> set HOME_ROW_KEYS \<and> targetPressure e \<in> set levels"
    by blast
  have h: "HOME_ROW_KEYS \<noteq> []" by (simp add: HOME_ROW_KEYS_def)
  from assms(1) have r1: "0 \<le> rng (2 * n)" "rng (2 * n) < 1" "0 \<le> rng (2 * n + 1)" "rng (2 * n + 1) < 1"
    by (simp_all add: unitDraws_def)
  from pick_in_range[OF r1(1,2) h] obtain rk where
    rk: "rk \<in> set HOME_ROW_KEYS" "pick HOME_ROW_KEYS (rng (2 * n)) = Some rk" by blast
  from pick_in_range[OF r1(3,4) assms(2)] obtain rp where
    rp: "rp \<in> set levels" "pick levels (rng (2 * n + 1)) = Some rp" by blast
  show ?case using sq rk rp by auto
qed

lemma levelsFor_nonempty: "levelsFor n \<noteq> []"
  by (simp add: levelsFor_def PRESSURE_LEVELS_MAP_def)

text \<open>
  C8. With every draw of the random source in \<open>[0, 1)\<close>, \<^verbatim>\<open>generateTestSequence\<close> stores
  a sequence of exactly 20 elements; each element's key and key code form one of the 7
  home-row entries and its target pressure belongs to the configured levels: those of
  \<^verbatim>\<open>levelCount\<close> in the peak variant (\<open>{30, 60, 100}\<close> for 3, \<open>{50, 100}\<close> for 2), the
  fixed \<open>{30, 60, 100}\<close> in the dwell variant.
\<close>

theorem generated_sequence_shape:
  assumes "unitDraws rng"
  shows "(\<exists>p'. generateTestSequence_peak rng p = Some p' \<and>
            length (testSequence p') = 20 \<and>
            (\<forall>e \<in> set (testSequence p').
               (key e, TestSequence.keyCode e) \<in> set HOME_ROW_KEYS \<and>
               targetPressure e \<in> set (levelsFor (levelCount p))))
       \<and> (\<exists>s'. generateTestSequence_dwell rng s = Some s' \<and>
            length (testSequence s') = 20 \<and>
            (\<forall>e \<in> set (testSequence s').
               (key e, TestSequence.keyCode e) \<in> set HOME_ROW_KEYS \<and>
               targetPressure e \<in> {30, 60, 100}))
       \<and> length HOME_ROW_KEYS = 7
       \<and> set (levelsFor 3) = {30, 60, 100}
       \<and> set (levelsFor 2) = {50, 100}"
proof -
  obtain sq where sq: "generateRounds (levelsFor (levelCount p)) rng 20 = Some sq" "length sq = 20"
    "\<forall>e \<in> set sq. (key e, TestSequence.keyCode e) \<in> set HOME_ROW_KEYS \<and>
         targetPressure e \<in> set (levelsFor (levelCount p))"
    using generateRounds_ok[OF assms levelsFor_nonempty] by blast
  have "PRESSURE_LEVELS \<noteq> []" by (simp add: PRESSURE_LEVELS_def)
  from generateRounds_ok[OF assms this] obtain sd where
    sd: "generateRounds PRESSURE_LEVELS rng 20 = Some sd" "length sd = 20"
    "\<forall>e \<in> set sd. (key e, TestSequence.keyCode e) \<in> set HOME_ROW_KEYS \<and>
         targetPressure e \<in> set PRESSURE_LEVELS"
    by blast
  have a: "\<exists>p'. generateTestSequence_peak rng p = Some p' \<and>
            length (testSequence p') = 20 \<and>
            (\<forall>e \<in> set (testSequence p').
               (key e, TestSequence.keyCode e) \<in> set HOME_ROW_KEYS \<and>
               targetPressure e \<in> set (levelsFor (levelCount p)))"
    using sq by (simp add: generateTestSequence_peak_def generateTestSequence_def)
  have b: "\<exists>s'. generateTestSequence_dwell rng s = Some s' \<and>
            length (testSequence s') = 20 \<and>
            (\<forall>e \<in> set (testSequence s').
               (key e, TestSequence.keyCode e) \<in> set HOME_ROW_KEYS \<and>
               targetPressure e \<in> {30, 60, 100})"
    using sd by (simp add: generateTestSequence_dwell_def generateTestSequence_def PRESSURE_LEVELS_def)
  have c: "length HOME_ROW_KEYS = 7" by (simp add: HOME_ROW_KEYS_def)
  have d: "set (levelsFor 3) = {30, 60, 100}" "set (levelsFor 2) = {50, 100}"
    by (simp_all add: levelsFor_def PRESSURE_LEVELS_MAP_def)
  from a b c d show ?thesis by blast
qed

lemma unitDraws_sample: "unitDraws sampleDraws"
  by (simp add: unitDraws_def sampleDraws_def)

theorem generated_sequence_shape_witness:
  "unitDraws sampleDraws
   \<and> (\<exists>p'. generateTestSequence_peak sampleDraws peakStart = Some p' \<and>
            length (testSequence p') = 20 \<and>
            (\<forall>e \<in> set (testSequence p'). targetPressure e \<in> {30, 60, 100}))
   \<and> (\<exists>p'. generateTestSequence_peak sampleDraws (peakStart\<lparr>levelCount := 2\<rparr>) = Some p' \<and>
            length (testSequence p') = 20 \<and>
            (\<forall>e \<in> set (testSequence p'). targetPressure e \<in> {50, 100}))"
proof -
  have l3: "set (levelsFor (levelCount peakStart)) = {30, 60, 100}"
    by (simp add: peakStart_def levelsFor_def PRESSURE_LEVELS_MAP_def)
  have l2: "set (levelsFor (levelCount (peakStart\<lparr>levelCount := 2\<rparr>))) = {50, 100}"
    by (simp add: levelsFor_def PRESSURE_LEVELS_MAP_def)
  have a: "\<exists>p'. generateTestSequence_peak sampleDraws peakStart = Some p' \<and>
            length (testSequence p') = 20 \<and>
            (\<forall>e \<in> set (testSequence p'). targetPressure e \<in> {30, 60, 100})"
    using generated_sequence_shape [OF unitDraws_sample, of peakStart dwellStart]
    unfolding l3 by blast
  have b: "\<exists>p'. generateTestSequence_peak sampleDraws (peakStart\<lparr>levelCount := 2\<rparr>) = Some p' \<and>
            length (testSequence p') = 20 \<and>
            (\<forall>e \<in> set (testSequence p'). targetPressure e \<in> {50, 100})"
    using generated_sequence_shape [OF unitDraws_sample, of "peakStart\<lparr>levelCount := 2\<rparr>" dwellStart]
    unfolding l2 by blast
  from a b unitDraws_sample show ?thesis by blast
qed

section \<open>Reset\<close>

lemma generateRounds_length: "generateRounds levels rng n = Some sq \<Longrightarrow> length sq = n"
  by (induction n arbitrary: sq) (auto split: option.splits)

lemma generateRounds_nth:
  "generateRounds levels rng n = Some sq \<Longrightarrow> i < n \<Longrightarrow>
     pick HOME_ROW_KEYS (rng (2 * i)) = Some (key (sq ! i), TestSequence.keyCode (sq ! i)) \<and>
     pick levels (rng (2 * i + 1)) = Some (targetPressure (sq ! i))"
proof (induction n arbitrary: sq)
  case 0
  then show ?case by simp
next
  case (Suc n)
  from Suc.prems(1) obtain pre rk rp where
    pre: "generateRounds levels rng n = Some pre"
    and rk: "pick HOME_ROW_KEYS (rng (2 * n)) = Some rk"
    and rp: "pick levels (rng (2 * n + 1)) = Some rp"
    and sq: "sq = pre @ [\<lparr>key = fst rk, keyCode = snd rk, targetPressure = rp\<rparr>]"
    by (auto split: option.splits)
  obtain m where m: "generateRounds levels rng n = Some pre" "length pre = n"
    using pre generateRounds_length by blast
  show ?case
  proof (cases "i < n")
    case True
    then show ?thesis using Suc.IH[OF pre True] sq m(2) by (simp add: nth_append)
  next
    case False
    then have "i = n" using Suc.prems(2) by simp
    then show ?thesis using rk rp sq m(2) by (simp add: nth_append)
  qed
qed

lemma reset_dwell_fields:
  "resetTest_dwell rng s = Some s' \<Longrightarrow>
     testStats s' = zeroStats \<and> currentIndex s' = 0 \<and> holdStartTime s' = None \<and>
     cooldownUntil s' = None \<and> \<not> isTestActive s' \<and> timers s' = timers s \<and>
     attemptLog s' = attemptLog s"
  by (auto simp: resetTest_dwell_def generateTestSequence_dwell_def generateTestSequence_def
           split: option.splits)

lemma reset_peak_fields:
  "resetTest_peak rng p = Some p' \<Longrightarrow>
     testStats p' = zeroStats \<and> currentIndex p' = 0 \<and> maxAnalog p' = 0 \<and> \<not> keyHeld p' \<and>
     cooldownUntil p' = None \<and> \<not> isTestActive p' \<and> levelCount p' = levelCount p \<and>
     timers p' = timers p \<and> attemptLog p' = attemptLog p"
  by (auto simp: resetTest_peak_def generateTestSequence_peak_def generateTestSequence_def
           split: option.splits)

lemma reset_dwell_total: "unitDraws rng \<Longrightarrow> \<exists>s'. resetTest_dwell rng s = Some s'"
  using generateRounds_ok[of rng PRESSURE_LEVELS 20]
  by (auto simp: resetTest_dwell_def generateTestSequence_dwell_def generateTestSequence_def
        PRESSURE_LEVELS_def)

lemma reset_peak_total: "unitDraws rng \<Longrightarrow> \<exists>p'. resetTest_peak rng p = Some p'"
  using generateRounds_ok[of rng "levelsFor (levelCount p)" 20] levelsFor_nonempty
  by (auto simp: resetTest_peak_def generateTestSequence_peak_def generateTestSequence_def)

text \<open>
  C9 (both variants). For any session and any two random sources with draws in \<open>[0, 1)\<close>,
  a reset followed by another reset gives, both times, statistics with all four fields 0,
  index 0, no hold start (no tracked peak and no held flag in the peak variant), no cooldown
  deadline and an inactive session. Nothing is said about the sequences, which depend on
  the draws.
\<close>

theorem reset_idempotent:
  assumes "unitDraws r1" and "unitDraws r2"
  shows "(\<exists>s1 s2. resetTest_dwell r1 s = Some s1 \<and> resetTest_dwell r2 s1 = Some s2
           \<and> testStats s1 = \<lparr>accuracy = 0, totalAttempts = 0, successfulHits = 0, averageDeviation = 0\<rparr>
           \<and> testStats s2 = testStats s1
           \<and> currentIndex s1 = 0 \<and> currentIndex s2 = 0
           \<and> holdStartTime s1 = None \<and> holdStartTime s2 = None
           \<and> cooldownUntil s1 = None \<and> cooldownUntil s2 = None
           \<and> \<not> isTestActive s1 \<and> \<not> isTestActive s2)
       \<and> (\<exists>p1 p2. resetTest_peak r1 p = Some p1 \<and> resetTest_peak r2 p1 = Some p2
           \<and> testStats p1 = \<lparr>accuracy = 0, totalAttempts = 0, successfulHits = 0, averageDeviation = 0\<rparr>
           \<and> testStats p2 = testStats p1
           \<and> currentIndex p1 = 0 \<and> currentIndex p2 = 0
           \<and> maxAnalog p1 = 0 \<and> maxAnalog p2 = 0
           \<and> \<not> keyHeld p1 \<and> \<not> keyHeld p2
           \<and> cooldownUntil p1 = None \<and> cooldownUntil p2 = None
           \<and> \<not> isTestActive p1 \<and> \<not> isTestActive p2)"
proof -
  obtain s1 where s1: "resetTest_dwell r1 s = Some s1"
    using reset_dwell_total[OF assms(1)] by blast
  obtain s2 where s2: "resetTest_dwell r2 s1 = Some s2"
    using reset_dwell_total[OF assms(2)] by blast
  obtain p1 where p1: "resetTest_peak r1 p = Some p1"
    using reset_peak_total[OF assms(1)] by blast
  obtain p2 where p2: "resetTest_peak r2 p1 = Some p2"
    using reset_peak_total[OF assms(2)] by blast
  have d: "\<exists>s1 s2. resetTest_dwell r1 s = Some s1 \<and> resetTest_dwell r2 s1 = Some s2
           \<and> testStats s1 = \<lparr>accuracy = 0, totalAttempts = 0, successfulHits = 0, averageDeviation = 0\<rparr>
           \<and> testStats s2 = testStats s1
           \<and> currentIndex s1 = 0 \<and> currentIndex s2 = 0
           \<and> holdStartTime s1 = None \<and> holdStartTime s2 = None
           \<and> cooldownUntil s1 = None \<and> cooldownUntil s2 = None
           \<and> \<not> isTestActive s1 \<and> \<not> isTestActive s2"
    using s1 s2 reset_dwell_fields[OF s1] reset_dwell_fields[OF s2]
    by (simp add: zeroStats_def)
  have q: "\<exists>p1 p2. resetTest_peak r1 p = Some p1 \<and> resetTest_peak r2 p1 = Some p2
           \<and> testStats p1 = \<lparr>accuracy = 0, totalAttempts = 0, successfulHits = 0, averageDeviation = 0\<rparr>
           \<and> testStats p2 = testStats p1
           \<and> currentIndex p1 = 0 \<and> currentIndex p2 = 0
           \<and> maxAnalog p1 = 0 \<and> maxAnalog p2 = 0
           \<and> \<not> keyHeld p1 \<and> \<not> keyHeld p2
           \<and> cooldownUntil p1 = None \<and> cooldownUntil p2 = None
           \<and> \<not> isTestActive p1 \<and> \<not> isTestActive p2"
    using p1 p2 reset_peak_fields[OF p1] reset_peak_fields[OF p2]
    by (simp add: zeroStats_def)
  from d q show ?thesis by blast
qed

lemma unitDraws_zero: "unitDraws zeroDraws"
  by (simp add: unitDraws_def zeroDraws_def)

text \<open>Two resets in a row on a session with a resolved attempt; the sequences differ.\<close>

theorem reset_idempotent_witness:
  "\<exists>s1 s2. resetTest_dwell sampleDraws (handleAttempt_dwell 100 False ''Wrong key!'' 1000 dwellStart)
               = Some s1
     \<and> resetTest_dwell zeroDraws s1 = Some s2
     \<and> testStats s1 = \<lparr>accuracy = 0, totalAttempts = 0, successfulHits = 0, averageDeviation = 0\<rparr>
     \<and> testStats s2 = testStats s1
     \<and> currentIndex s1 = 0 \<and> currentIndex s2 = 0
     \<and> holdStartTime s1 = None \<and> holdStartTime s2 = None
     \<and> cooldownUntil s1 = None \<and> cooldownUntil s2 = None
     \<and> \<not> isTestActive s1 \<and> \<not> isTestActive s2
     \<and> testSequence s1 \<noteq> testSequence s2"
proof -
  let ?d = "handleAttempt_dwell 100 False ''Wrong key!'' 1000 dwellStart"
  from reset_idempotent [OF unitDraws_sample unitDraws_zero, of ?d peakStart]
  obtain s1 s2 where r: "resetTest_dwell sampleDraws ?d = Some s1"
      "resetTest_dwell zeroDraws s1 = Some s2"
      "testStats s1 = \<lparr>accuracy = 0, totalAttempts = 0, successfulHits = 0, averageDeviation = 0\<rparr>"
      "testStats s2 = testStats s1"
      "currentIndex s1 = 0" "currentIndex s2 = 0"
      "holdStartTime s1 = None" "holdStartTime s2 = None"
      "cooldownUntil s1 = None" "cooldownUntil s2 = None"
      "\<not> isTestActive s1" "\<not> isTestActive s2"
    by blast
  from r(1) have g1: "generateRounds PRESSURE_LEVELS sampleDraws 20 = Some (testSequence s1)"
    by (auto simp: resetTest_dwell_def generateTestSequence_dwell_def generateTestSequence_def
             split: option.splits)
  from r(2) have g2: "generateRounds PRESSURE_LEVELS zeroDraws 20 = Some (testSequence s2)"
    by (auto simp: resetTest_dwell_def generateTestSequence_dwell_def generateTestSequence_def
             split: option.splits)
  have k1: "TestSequence.keyCode (testSequence s1 ! 1) = 7"
    using generateRounds_nth[OF g1, of 1]
    by (simp add: pick_def sampleDraws_def HOME_ROW_KEYS_def)
  have k2: "TestSequence.keyCode (testSequence s2 ! 1) = 4"
    using generateRounds_nth[OF g2, of 1]
    by (simp add: pick_def zeroDraws_def HOME_ROW_KEYS_def)
  from k1 k2 have "testSequence s1 \<noteq> testSequence s2" by auto
  with r show ?thesis by blast
qed


section \<open>Decoding\<close>

lemma isDigit_simps [simp]:
  "\<not> isDigit CHR ''(''" "\<not> isDigit CHR '':''" "\<not> isDigit CHR '')''" "\<not> isDigit CHR ''.''"
  by (simp_all add: isDigit_def)

lemma matchHere_SomeD:
  assumes "matchHere s = Some (g, rest)"
  shows "s = groupText g @ rest \<and> looseFields g"
proof -
  obtain g1 g2 g3 where g: "g = (g1, g2, g3)" by (cases g)
  have td: "\<And>P (xs :: string). takeWhile P xs @ dropWhile P xs = xs" by simp
  have ta: "\<And>P (xs :: string). list_all P (takeWhile P xs)"
    by (auto simp: list_all_iff dest: set_takeWhileD)
  from assms show ?thesis unfolding g matchHere_def Let_def groupText_def looseFields_def
    by (auto split: list.splits if_splits simp: ta) (metis td)+
qed

lemma matchHere_build:
  assumes "looseFields g"
  shows "matchHere (groupText g @ rest) = Some (g, rest)"
proof -
  obtain g1 g2 g3 where g: "g = (g1, g2, g3)" by (cases g)
  from assms have d1: "\<And>c. c \<in> set g1 \<Longrightarrow> isDigit c" and d3: "\<And>c. c \<in> set g3 \<Longrightarrow> isDigit c"
    and n2: "\<And>c. c \<in> set g2 \<Longrightarrow> c \<noteq> CHR '':''"
    and ne: "g1 \<noteq> []" "g2 \<noteq> []" "g3 \<noteq> []"
    by (auto simp: g looseFields_def list_all_iff)
  have t1: "\<And>r. takeWhile isDigit (g1 @ CHR '':'' # r) = g1"
    and r1: "\<And>r. dropWhile isDigit (g1 @ CHR '':'' # r) = CHR '':'' # r"
    using d1 by (simp_all add: takeWhile_append2 dropWhile_append2)
  have t2: "\<And>r. takeWhile (\<lambda>c. c \<noteq> CHR '':'') (g2 @ CHR '':'' # r) = g2"
    and r2: "\<And>r. dropWhile (\<lambda>c. c \<noteq> CHR '':'') (g2 @ CHR '':'' # r) = CHR '':'' # r"
    using n2 by (simp_all add: takeWhile_append2 dropWhile_append2)
  have t3: "\<And>r. takeWhile isDigit (g3 @ CHR '')'' # r) = g3"
    and r3: "\<And>r. dropWhile isDigit (g3 @ CHR '')'' # r) = CHR '')'' # r"
    using d3 by (simp_all add: takeWhile_append2 dropWhile_append2)
  show ?thesis
    unfolding g groupText_def matchHere_def using ne
    by (simp add: t1 r1 t2 r2 t3 r3)
qed

lemma matched_text:
  assumes "matchHere s = Some (g, rest)"
  shows "take (length s - length rest) s = groupText g"
  using matchHere_SomeD[OF assms] by simp

lemma groupText_Cons: "groupText g = CHR ''('' # tl (groupText g)"
  by (cases g) (simp add: groupText_def)

lemma matchFirst_groupText: "looseFields g \<Longrightarrow> matchFirst (groupText g) = Some g"
proof -
  assume l: "looseFields g"
  obtain t where t: "groupText g = CHR ''('' # t" using groupText_Cons by blast
  have "matchHere (CHR ''('' # t) = Some (g, [])"
    using matchHere_build[OF l, of "[]"] unfolding t by simp
  then show ?thesis unfolding t by simp
qed

lemma fieldsOf_groupText: "looseFields g \<Longrightarrow> fieldsOf (groupText g) = g"
  by (simp add: fieldsOf_def matchFirst_groupText)

lemma tryLengths_shorter:
  assumes excl: "\<And>c. q c \<Longrightarrow> \<not> p c"
  shows "n < length (takeWhile p s) \<Longrightarrow> tryLengths (\<lambda>t. backtrack (One q # items) t) s n = None"
proof (induction n)
  case 0
  then show ?case by simp
next
  case (Suc n)
  let ?m = "length (takeWhile p s)"
  have lt: "Suc n < ?m" using Suc.prems .
  have ls: "Suc n < length s" using lt length_takeWhile_le[of p s] by (meson less_le_trans)
  have d: "drop (Suc n) s = s ! Suc n # drop (Suc (Suc n)) s"
    using ls by (simp add: Cons_nth_drop_Suc)
  have "takeWhile p s ! Suc n = s ! Suc n" using lt by (rule takeWhile_nth)
  moreover have "p (takeWhile p s ! Suc n)"
    using lt by (meson nth_mem set_takeWhileD)
  ultimately have "p (s ! Suc n)" by simp
  then have "\<not> q (s ! Suc n)" using excl by blast
  then have "backtrack (One q # items) (drop (Suc n) s) = None" using d by simp
  moreover have "tryLengths (\<lambda>t. backtrack (One q # items) t) s n = None"
    using Suc.IH lt by simp
  ultimately show ?case by simp
qed

lemma backtrack_Many_One:
  assumes excl: "\<And>c. q c \<Longrightarrow> \<not> p c"
  shows "backtrack (Many p # One q # items) s =
     (if takeWhile p s = [] then None
      else case backtrack (One q # items) (dropWhile p s) of
             Some (gs, rest) \<Rightarrow> Some (takeWhile p s # gs, rest)
           | None \<Rightarrow> None)"
proof (cases "length (takeWhile p s)")
  case 0
  then show ?thesis by simp
next
  case (Suc n)
  have dr: "drop (Suc n) s = dropWhile p s"
    using Suc by (metis dropWhile_eq_drop)
  have tk: "take (Suc n) s = takeWhile p s"
    using Suc by (metis takeWhile_eq_take)
  have none: "tryLengths (\<lambda>t. backtrack (One q # items) t) s n = None"
    using tryLengths_shorter[where q = q and p = p and n = n and s = s and items = items] excl Suc
    by simp
  have ne: "takeWhile p s \<noteq> []" using Suc by auto
  have "backtrack (Many p # One q # items) s
          = tryLengths (\<lambda>t. backtrack (One q # items) t) s (Suc n)"
    using Suc by (simp only: backtrack.simps(3))
  also have "\<dots> = (case backtrack (One q # items) (dropWhile p s) of
                      Some (gs, rest) \<Rightarrow> Some (takeWhile p s # gs, rest)
                    | None \<Rightarrow> None)"
    by (simp only: tryLengths.simps dr tk none)
  finally show ?thesis using ne by (simp only: if_False)
qed

lemma backtrack_digits_colon:
  "backtrack (Many isDigit # One (\<lambda>c. c = CHR '':'') # items) s =
     (if takeWhile isDigit s = [] then None
      else case backtrack (One (\<lambda>c. c = CHR '':'') # items) (dropWhile isDigit s) of
             Some (gs, rest) \<Rightarrow> Some (takeWhile isDigit s # gs, rest)
           | None \<Rightarrow> None)"
  by (rule backtrack_Many_One) simp

lemma backtrack_digits_paren:
  "backtrack (Many isDigit # One (\<lambda>c. c = CHR '')'') # items) s =
     (if takeWhile isDigit s = [] then None
      else case backtrack (One (\<lambda>c. c = CHR '')'') # items) (dropWhile isDigit s) of
             Some (gs, rest) \<Rightarrow> Some (takeWhile isDigit s # gs, rest)
           | None \<Rightarrow> None)"
  by (rule backtrack_Many_One) simp

lemma backtrack_field_colon:
  "backtrack (Many (\<lambda>c. c \<noteq> CHR '':'') # One (\<lambda>c. c = CHR '':'') # items) s =
     (if takeWhile (\<lambda>c. c \<noteq> CHR '':'') s = [] then None
      else case backtrack (One (\<lambda>c. c = CHR '':'') # items) (dropWhile (\<lambda>c. c \<noteq> CHR '':'') s) of
             Some (gs, rest) \<Rightarrow> Some (takeWhile (\<lambda>c. c \<noteq> CHR '':'') s # gs, rest)
           | None \<Rightarrow> None)"
  by (rule backtrack_Many_One) simp


lemmas backtrack_keyPattern =
  backtrack.simps(2) backtrack_digits_colon backtrack_field_colon
  backtrack_digits_paren backtrack.simps(1)

lemma backtrack_build:
  assumes "looseFields g"
  shows "backtrack keyPattern (groupText g @ rest) = Some (segments g, rest)"
proof -
  obtain g1 g2 g3 where g: "g = (g1, g2, g3)" by (cases g)
  from assms have d1: "\<And>c. c \<in> set g1 \<Longrightarrow> isDigit c" and d3: "\<And>c. c \<in> set g3 \<Longrightarrow> isDigit c"
    and n2: "\<And>c. c \<in> set g2 \<Longrightarrow> c \<noteq> CHR '':''"
    and ne: "g1 \<noteq> []" "g2 \<noteq> []" "g3 \<noteq> []"
    by (auto simp: g looseFields_def list_all_iff)
  have t1: "\<And>r. takeWhile isDigit (g1 @ CHR '':'' # r) = g1"
    and r1: "\<And>r. dropWhile isDigit (g1 @ CHR '':'' # r) = CHR '':'' # r"
    using d1 by (simp_all add: takeWhile_append2 dropWhile_append2)
  have t2: "\<And>r. takeWhile (\<lambda>c. c \<noteq> CHR '':'') (g2 @ CHR '':'' # r) = g2"
    and r2: "\<And>r. dropWhile (\<lambda>c. c \<noteq> CHR '':'') (g2 @ CHR '':'' # r) = CHR '':'' # r"
    using n2 by (simp_all add: takeWhile_append2 dropWhile_append2)
  have t3: "\<And>r. takeWhile isDigit (g3 @ CHR '')'' # r) = g3"
    and r3: "\<And>r. dropWhile isDigit (g3 @ CHR '')'' # r) = CHR '')'' # r"
    using d3 by (simp_all add: takeWhile_append2 dropWhile_append2)
  have "backtrack keyPattern (CHR ''('' # g1 @ CHR '':'' # g2 @ CHR '':'' # g3 @ CHR '')'' # rest)
          = Some ([''('', g1, '':'', g2, '':'', g3, '')''], rest)"
    unfolding keyPattern_def
    by (simp only: backtrack_keyPattern)
       (simp add: t1 r1 t2 r2 t3 r3 ne)
  then show ?thesis by (simp add: g groupText_def segments_def)
qed

lemma backtrack_SomeD:
  assumes "backtrack keyPattern s = Some (gs, rest)"
  shows "\<exists>g. looseFields g \<and> s = groupText g @ rest"
proof -
  have td: "\<And>P (xs :: string). takeWhile P xs @ dropWhile P xs = xs" by simp
  have ta: "\<And>P (xs :: string). list_all P (takeWhile P xs)"
    by (auto simp: list_all_iff dest: set_takeWhileD)
  obtain cs r2 r4 where
    s: "s = CHR ''('' # cs" and n1: "takeWhile isDigit cs \<noteq> []"
    and e1: "dropWhile isDigit cs = CHR '':'' # r2"
    and n2: "takeWhile (\<lambda>c. c \<noteq> CHR '':'') r2 \<noteq> []"
    and e2: "dropWhile (\<lambda>c. c \<noteq> CHR '':'') r2 = CHR '':'' # r4"
    and n3: "takeWhile isDigit r4 \<noteq> []"
    and e3: "dropWhile isDigit r4 = CHR '')'' # rest"
    using assms unfolding keyPattern_def
    by (simp only: backtrack_keyPattern)
       (auto split: list.splits if_splits option.splits)
  let ?g = "(takeWhile isDigit cs, takeWhile (\<lambda>c. c \<noteq> CHR '':'') r2, takeWhile isDigit r4)"
  have "looseFields ?g" using n1 n2 n3 by (simp add: looseFields_def ta)
  moreover have "s = groupText ?g @ rest"
    unfolding s groupText_def using td[of isDigit cs] td[of "\<lambda>c. c \<noteq> CHR '':''" r2]
      td[of isDigit r4] e1 e2 e3
    by (metis (no_types, lifting) append_Cons append_Nil append_assoc case_prod_conv)
  ultimately show ?thesis by blast
qed

text \<open>The direct matcher returns what the backtracking search of the pattern returns.\<close>

lemma matchHere_backtrack:
  "backtrack keyPattern s =
     (case matchHere s of None \<Rightarrow> None | Some (g, rest) \<Rightarrow> Some (segments g, rest))"
proof (cases "matchHere s")
  case None
  have "backtrack keyPattern s = None"
  proof (cases "backtrack keyPattern s")
    case (Some found)
    obtain gs rest where "found = (gs, rest)" by (cases found)
    with Some backtrack_SomeD obtain g where "looseFields g" "s = groupText g @ rest" by blast
    then have "matchHere s = Some (g, rest)" using matchHere_build by simp
    with None show ?thesis by simp
  qed simp
  with None show ?thesis by simp
next
  case (Some found)
  obtain g rest where f: "found = (g, rest)" by (cases found)
  have "s = groupText g @ rest \<and> looseFields g"
    using matchHere_SomeD Some f by simp
  then have "backtrack keyPattern s = Some (segments g, rest)"
    using backtrack_build by simp
  then show ?thesis using Some f by simp
qed

lemma globalMatch_Some:
  "matchHere (c # cs) = Some (g, rest) \<Longrightarrow> globalMatch (c # cs) = groupText g # globalMatch rest"
  using matched_text[of "c # cs" g rest] by simp

lemma globalMatch_None:
  "matchHere (c # cs) = None \<Longrightarrow> globalMatch (c # cs) = globalMatch cs"
  by simp

lemma globalMatch_members:
  "m \<in> set (globalMatch s) \<Longrightarrow> \<exists>g. looseFields g \<and> m = groupText g"
proof (induction s rule: globalMatch.induct)
  case 1
  then show ?case by simp
next
  case (2 c cs)
  show ?case
  proof (cases "matchHere (c # cs)")
    case None
    then show ?thesis using "2.IH" "2.prems" by simp
  next
    case (Some found)
    obtain g rest where f: "found = (g, rest)" by (cases found)
    have ih: "m \<in> set (globalMatch rest) \<Longrightarrow> \<exists>g. looseFields g \<and> m = groupText g"
      using "2.IH" Some f by blast
    have "m = groupText g \<or> m \<in> set (globalMatch rest)"
      using "2.prems" globalMatch_Some[of c cs g rest] Some f by simp
    then show ?thesis using ih matchHere_SomeD[of "c # cs" g rest] Some f by blast
  qed
qed

text \<open>
  C6, as the code has it. A message in which the pattern finds at least one group replaces
  the snapshot list by the freshly parsed records, whatever the previous list was (nothing
  of it is kept). A message in which the pattern finds nothing, the empty message
  included, leaves the previous list as it is. No case raises an error: the handler is a
  total function of the text.
\<close>

theorem onmessage_replaces_or_keeps:
  "(globalMatch msg \<noteq> [] \<longrightarrow>
      onmessage parseFloat msg keyData = map (parseKey parseFloat) (globalMatch msg)
      \<and> onmessage parseFloat msg keyData = onmessage parseFloat msg keyData')
   \<and> (globalMatch msg = [] \<longrightarrow> onmessage parseFloat msg keyData = keyData)"
  by (cases msg; cases "globalMatch msg")
     (simp_all add: onmessage_def parsedKeys_def keyMatches_def)

text \<open>
  C6 as stated fails: the payload \<^verbatim>\<open>ping\<close> and the empty payload hold no valid group, and
  after either the snapshot list is the previous one, which is not empty.
\<close>

theorem empty_payload_keeps_snapshot:
  "validGroups ''ping'' = []
   \<and> onmessage readDecimal ''ping'' [snapshot 9 (61 / 100) 1] \<noteq> []
   \<and> validGroups [] = []
   \<and> onmessage readDecimal [] [snapshot 9 (61 / 100) 1] \<noteq> []"
  by (simp add: onmessage_def parsedKeys_def keyMatches_def matchHere_def validGroupHere_def)



lemmas decode_eval =
  matchHere_def isDigit_def Let_def fieldsOf_def parseKey_def parseInt_def digitVal_def
  readDecimal_def snapshot_def

lemma ex1: "globalMatch ''(9:0.61:1)(22:0:0)'' = [''(9:0.61:1)'', ''(22:0:0)'']"
  by (simp add: decode_eval)

lemma ex2: "map (parseKey readDecimal) [''(9:0.61:1)'', ''(22:0:0)''] = [snapshot 9 (61 / 100) 1, snapshot 22 0 0]"
  by (simp add: decode_eval)


text \<open>A message with two groups replaces the list; \<^verbatim>\<open>ping\<close> keeps it.\<close>

theorem onmessage_replaces_or_keeps_witness:
  "onmessage readDecimal ''(9:0.61:1)(22:0:0)'' [snapshot 4 1 1]
     = [snapshot 9 (61 / 100) 1, snapshot 22 0 0]
   \<and> onmessage readDecimal ''ping'' [snapshot 4 1 1] = [snapshot 4 1 1]"
proof -
  have n: "globalMatch ''(9:0.61:1)(22:0:0)'' \<noteq> []" unfolding ex1 by simp
  have e: "globalMatch ''ping'' = []" by (simp add: matchHere_def)
  from onmessage_replaces_or_keeps [of "''(9:0.61:1)(22:0:0)''" readDecimal "[snapshot 4 1 1]" "[]"] n
  have a: "onmessage readDecimal ''(9:0.61:1)(22:0:0)'' [snapshot 4 1 1]
     = map (parseKey readDecimal) (globalMatch ''(9:0.61:1)(22:0:0)'')" by blast
  from onmessage_replaces_or_keeps [of "''ping''" readDecimal "[snapshot 4 1 1]" "[]"] e
  have b: "onmessage readDecimal ''ping'' [snapshot 4 1 1] = [snapshot 4 1 1]" by blast
  show ?thesis unfolding a b ex1 ex2 by simp
qed


lemma validGroupHere_not_paren: "c \<noteq> CHR ''('' \<Longrightarrow> validGroupHere (c # cs) = None"
  by (simp add: validGroupHere_def matchHere_def)

lemma validGroups_no_paren:
  "CHR ''('' \<notin> set xs \<Longrightarrow> validGroups (xs @ r) = validGroups r"
  by (induction xs) (auto simp: validGroupHere_not_paren)

lemma takeWhile_to_colon:
  "CHR '':'' \<notin> set zs \<Longrightarrow> takeWhile (\<lambda>c. c \<noteq> CHR '':'') (zs @ CHR '':'' # u) = zs"
  by (induction zs) auto

lemma first_colon_unique:
  assumes "xs @ CHR '':'' # t = xs' @ CHR '':'' # t'"
    and "CHR '':'' \<notin> set xs" and "CHR '':'' \<notin> set xs'"
  shows "xs = xs' \<and> t = t'"
proof -
  have "takeWhile (\<lambda>c. c \<noteq> CHR '':'') (xs @ CHR '':'' # t) = xs"
    using assms(2) by (rule takeWhile_to_colon)
  moreover have "takeWhile (\<lambda>c. c \<noteq> CHR '':'') (xs' @ CHR '':'' # t') = xs'"
    using assms(3) by (rule takeWhile_to_colon)
  ultimately have "xs = xs'" using assms(1) by simp
  then show ?thesis using assms(1) by simp
qed

lemma not_decimal_with_paren:
  assumes "list_all isDigit g3"
  shows "\<not> isDecimal01 (g3 @ CHR '')'' # x)"
proof -
  have "dropWhile isDigit (g3 @ CHR '')'' # x) = CHR '')'' # x"
    using assms by (simp add: dropWhile_append2 list_all_iff)
  then show ?thesis by (simp add: isDecimal01_def)
qed

lemma no_valid_group_inside:
  assumes nc: "CHR '':'' \<notin> set (y # ys)" and d3: "list_all isDigit g3"
  shows "validGroupHere (y # ys @ CHR '':'' # g3 @ CHR '')'' # rest) = None"
proof (cases "matchHere (y # ys @ CHR '':'' # g3 @ CHR '')'' # rest)")
  case None
  then show ?thesis by (simp add: validGroupHere_def)
next
  case (Some found)
  obtain a b d r where f: "found = ((a, b, d), r)" by (cases found) auto
  have m: "matchHere (y # ys @ CHR '':'' # g3 @ CHR '')'' # rest) = Some ((a, b, d), r)"
    using Some f by simp
  note sd = matchHere_SomeD[OF m]
  have eq: "y # ys @ CHR '':'' # g3 @ CHR '')'' # rest = groupText (a, b, d) @ r"
    using sd by (rule conjunct1)
  have lf: "looseFields (a, b, d)"
    using sd by (rule conjunct2)
  have da: "\<And>c. c \<in> set a \<Longrightarrow> isDigit c" and cb: "CHR '':'' \<notin> set b"
    using lf by (auto simp: looseFields_def list_all_iff)
  have ca: "CHR '':'' \<notin> set (CHR ''('' # a)"
    using da[of "CHR '':''"] by auto
  have gt: "groupText (a, b, d) @ r
           = (CHR ''('' # a) @ CHR '':'' # (b @ CHR '':'' # d @ CHR '')'' # r)"
    by (simp add: groupText_def)
  have lhs: "y # ys @ CHR '':'' # g3 @ CHR '')'' # rest
           = (y # ys) @ CHR '':'' # (g3 @ CHR '')'' # rest)"
    by simp
  have eq': "(y # ys) @ CHR '':'' # (g3 @ CHR '')'' # rest)
           = (CHR ''('' # a) @ CHR '':'' # (b @ CHR '':'' # d @ CHR '')'' # r)"
    using eq unfolding gt lhs .
  have t: "g3 @ CHR '')'' # rest = b @ CHR '':'' # d @ CHR '')'' # r"
    using first_colon_unique[OF eq' nc ca] by (rule conjunct2)
  have tb: "takeWhile (\<lambda>c. c \<noteq> CHR '':'') (b @ CHR '':'' # d @ CHR '')'' # r) = b"
    using cb by (rule takeWhile_to_colon)
  have n3: "\<And>c. c \<in> set g3 \<Longrightarrow> c \<noteq> CHR '':''"
    using d3 by (auto simp: list_all_iff)
  have tg: "takeWhile (\<lambda>c. c \<noteq> CHR '':'') (g3 @ CHR '')'' # rest)
                 = g3 @ CHR '')'' # takeWhile (\<lambda>c. c \<noteq> CHR '':'') rest"
    using n3 by (simp add: takeWhile_append2)
  have "b = g3 @ CHR '')'' # takeWhile (\<lambda>c. c \<noteq> CHR '':'') rest"
    using tb tg unfolding t by simp
  then have "\<not> isDecimal01 b" using not_decimal_with_paren[OF d3] by simp
  then show ?thesis unfolding validGroupHere_def m by simp
qed

lemma validGroups_skip_field:
  assumes "CHR '':'' \<notin> set ys" and "list_all isDigit g3"
  shows "validGroups (ys @ CHR '':'' # g3 @ CHR '')'' # rest)
           = validGroups (CHR '':'' # g3 @ CHR '')'' # rest)"
  using assms(1)
proof (induction ys)
  case Nil
  then show ?case by simp
next
  case (Cons y ys)
  have "validGroupHere (y # ys @ CHR '':'' # g3 @ CHR '')'' # rest) = None"
    using no_valid_group_inside[OF Cons.prems assms(2)] .
  then show ?case using Cons by simp
qed

lemma validGroups_skip_group:
  assumes "looseFields g"
  shows "validGroups (tl (groupText g) @ rest) = validGroups rest"
proof -
  obtain g1 g2 g3 where g: "g = (g1, g2, g3)" by (cases g)
  from assms have d1: "list_all isDigit g1" and d3: "list_all isDigit g3"
    and n2: "CHR '':'' \<notin> set g2"
    by (auto simp: g looseFields_def list_all_iff)
  have p1: "CHR ''('' \<notin> set (g1 @ [CHR '':''])"
    using d1 by (auto simp: list_all_iff)
  have p3: "CHR ''('' \<notin> set (CHR '':'' # g3 @ [CHR '')''])"
    using d3 by (auto simp: list_all_iff)
  have "validGroups (tl (groupText g) @ rest)
        = validGroups ((g1 @ [CHR '':'']) @ (g2 @ CHR '':'' # g3 @ CHR '')'' # rest))"
    by (simp add: g groupText_def)
  also have "\<dots> = validGroups (g2 @ CHR '':'' # g3 @ CHR '')'' # rest)"
    by (rule validGroups_no_paren[OF p1])
  also have "\<dots> = validGroups (CHR '':'' # g3 @ CHR '')'' # rest)"
    by (rule validGroups_skip_field[OF n2 d3])
  also have "\<dots> = validGroups ((CHR '':'' # g3 @ [CHR '')'']) @ rest)" by simp
  also have "\<dots> = validGroups rest"
    by (rule validGroups_no_paren[OF p3])
  finally show ?thesis .
qed

lemma validGroups_count:
  "length (validGroups s) = length (filter validMatch (globalMatch s))"
proof (induction s rule: globalMatch.induct)
  case 1
  then show ?case by simp
next
  case (2 c cs)
  show ?case
  proof (cases "matchHere (c # cs)")
    case None
    then have "validGroupHere (c # cs) = None" by (simp add: validGroupHere_def)
    then show ?thesis using "2.IH" None by simp
  next
    case (Some found)
    obtain g rest where f: "found = (g, rest)" by (cases found)
    have m: "matchHere (c # cs) = Some (g, rest)" using Some f by simp
    have ih: "length (validGroups rest) = length (filter validMatch (globalMatch rest))"
      using "2.IH" Some f by blast
    from matchHere_SomeD[OF m] have eq: "c # cs = groupText g @ rest" and lf: "looseFields g"
      by auto
    have cs: "cs = tl (groupText g) @ rest"
      using eq groupText_Cons[of g] by (metis append_Cons list.sel(3))
    have sk: "validGroups cs = validGroups rest"
      unfolding cs by (rule validGroups_skip_group[OF lf])
    have vm: "validMatch (groupText g) = isDecimal01 (fst (snd g))"
      by (simp add: validMatch_def fieldsOf_groupText[OF lf])
    have vh: "validGroupHere (c # cs) = (if isDecimal01 (fst (snd g)) then Some g else None)"
      using m by (cases g) (simp add: validGroupHere_def)
    show ?thesis
      using globalMatch_Some[OF m] vm vh sk ih by simp
  qed
qed

lemma emittedCount_matches: "emittedCount pf msg = length (globalMatch msg)"
  by (cases msg; cases "globalMatch msg")
     (simp_all add: emittedCount_def parsedKeys_def keyMatches_def)

text \<open>
  C7, as the code has it. The number of emitted records is the number of groups the
  pattern finds from left to right: \<^verbatim>\<open>(keyCode:analogValue:pressedFlag)\<close> with \<^verbatim>\<open>keyCode\<close>
  and \<^verbatim>\<open>pressedFlag\<close> digits and \<^verbatim>\<open>analogValue\<close> any non-empty text without a colon. That
  is the number of syntactically valid groups of the payload plus the number of found
  groups whose \<^verbatim>\<open>analogValue\<close> is not a decimal in \<open>[0, 1]\<close>. Text outside the found groups
  is skipped; the count is a total function of the text.
\<close>

theorem emitted_count:
  "emittedCount parseFloat msg = length (globalMatch msg)
   \<and> emittedCount parseFloat msg =
       length (validGroups msg) + length (filter (\<lambda>m. \<not> validMatch m) (globalMatch msg))"
proof -
  have "length (globalMatch msg) =
          length (filter validMatch (globalMatch msg))
          + length (filter (\<lambda>m. \<not> validMatch m) (globalMatch msg))"
    by (rule sum_length_filter_compl[symmetric])
  then show ?thesis by (simp add: emittedCount_matches validGroups_count)
qed

text \<open>
  C7 as stated fails: \<^verbatim>\<open>(9:abc:1)\<close> holds no valid group and emits one record, and the
  two partial fragments \<^verbatim>\<open>(1:0.5)(2:1)\<close> are not skipped but read as one group.
\<close>

theorem loose_groups_are_emitted:
  "validGroups ''(9:abc:1)'' = [] \<and> emittedCount readDecimal ''(9:abc:1)'' = 1
   \<and> validGroups ''(1:0.5)(2:1)'' = [] \<and> emittedCount readDecimal ''(1:0.5)(2:1)'' = 1"
  by (simp add: emittedCount_def parsedKeys_def keyMatches_def validGroupHere_def isDecimal01_def decode_eval)

section \<open>Cooldown and pending advances\<close>

text \<open>
  What holds of the cooldown in both variants: an attempt sets the deadline 3000 ms ahead
  and schedules one advance, updates before the deadline change nothing, and the advance
  adds one to the index and clears the deadline. In the dwell variant no hold start is
  left afterwards.
\<close>

lemma attempt_starts_cooldown:
  "cooldownUntil (handleAttempt dev ok msg now s) = Some (now + 3000)
   \<and> timers (handleAttempt dev ok msg now s) = timers s @ [now + 3000]
   \<and> currentIndex (handleAttempt dev ok msg now s) = currentIndex s
   \<and> coolingDown (cooldownUntil (handleAttempt dev ok msg now s)) now"
  by (simp add: handleAttempt_def coolingDown_def)

lemma cooldown_ignores_telemetry:
  "coolingDown (cooldownUntil s) now \<Longrightarrow> evaluate_dwell keyData now s = s"
  "coolingDown (cooldownUntil p) now \<Longrightarrow> evaluate_peak keyData now p = p"
  by (simp_all add: evaluate_dwell_def evaluate_peak_def)

lemma timer_advances_by_one:
  "timers s = [due] \<Longrightarrow> due \<le> now \<Longrightarrow>
     currentIndex (timerFires now s) = currentIndex s + 1
     \<and> cooldownUntil (timerFires now s) = None \<and> timers (timerFires now s) = []"
  by (simp add: timerFires_def advance_def)

lemma dwell_idle_after_cooldown:
  assumes "timers s = []"
  shows "holdStartTime (timerFires (now + 3000) (handleAttempt_dwell dev ok msg now s)) = None
       \<and> cooldownUntil (timerFires (now + 3000) (handleAttempt_dwell dev ok msg now s)) = None
       \<and> currentIndex (timerFires (now + 3000) (handleAttempt_dwell dev ok msg now s))
           = currentIndex s + 1"
  using assms by (simp add: timerFires_def advance_def handleAttempt_dwell_def handleAttempt_def)

lemmas session_eval =
  evaluate_peak_def evaluate_dwell_def handleAttempt_def handleAttempt_dwell_def
  coolingDown_def truthy_def timerFires_def advance_def updateStats_def zeroStats_def
  peakStart_def dwellStart_def targetF_def targetJ_def snapshot_def Let_def

text \<open>
  C3 fails in the peak variant. The resolution by a wrong key leaves \<^verbatim>\<open>keyHeld\<close> and
  \<^verbatim>\<open>maxAnalog\<close> as they were (the resolution by release clears both). In the run
  \<open>peakDecoy\<close> the update during the cooldown is ignored and the index advances by one, but
  the session still counts the key as held with the old peak 0.5: the effect, run again
  with every key released, resolves the new target \<open>j\<close> as a success although \<open>j\<close> was
  never pressed.
\<close>

theorem stale_hold_after_wrong_key:
  "currentIndex peakDecoy = 1 \<and> cooldownUntil peakDecoy = None \<and> timers peakDecoy = []
   \<and> keyHeld peakDecoy \<and> maxAnalog peakDecoy = 1 / 2
   \<and> attemptLog peakDecoy = [\<lparr>deviation = 100, isSuccess = False, message = ''Wrong key!''\<rparr>]
   \<and> attemptLog peakDecoyReleased =
       [\<lparr>deviation = 100, isSuccess = False, message = ''Wrong key!''\<rparr>,
        \<lparr>deviation = 10, isSuccess = True, message = ''Good!''\<rparr>]"
  by (simp add: peakDecoyReleased_def peakDecoy_def session_eval)

text \<open>
  C5 fails in both variants. \<^verbatim>\<open>resetTest\<close> (like \<^verbatim>\<open>pauseTest\<close>) leaves the scheduled
  advance pending: after an attempt at time 1000 and a reset, the index is 0, and when the
  advance runs at time 4000 the index becomes 1 although no attempt was resolved since
  the reset. A paused session advances in the same way.
\<close>

theorem stale_timer_after_reset:
  "\<exists>r q. resetTest_dwell zeroDraws dwellAttempted = Some r
      \<and> currentIndex r = 0 \<and> timers r = [4000]
      \<and> currentIndex (timerFires 4000 r) = 1
      \<and> totalAttempts (testStats (timerFires 4000 r)) = 0
      \<and> resetTest_peak zeroDraws peakAttempted = Some q
      \<and> currentIndex q = 0 \<and> timers q = [4000]
      \<and> currentIndex (timerFires 4000 q) = 1
      \<and> totalAttempts (testStats (timerFires 4000 q)) = 0
      \<and> timers (pauseTest dwellAttempted) = [4000]
      \<and> currentIndex (timerFires 4000 (pauseTest dwellAttempted)) = 1"
proof -
  let ?d = "dwellAttempted"
  let ?p = "peakAttempted"
  obtain r where r: "resetTest_dwell zeroDraws ?d = Some r"
    using reset_dwell_total[OF unitDraws_zero] by blast
  obtain q where q: "resetTest_peak zeroDraws ?p = Some q"
    using reset_peak_total[OF unitDraws_zero] by blast
  have td: "timers ?d = [4000]" by (simp add: dwellAttempted_def session_eval)
  have tp: "timers ?p = [4000]" by (simp add: peakAttempted_def session_eval)
  have fr: "currentIndex r = 0" "timers r = [4000]" "testStats r = zeroStats"
    using reset_dwell_fields[OF r] td by simp_all
  have fq: "currentIndex q = 0" "timers q = [4000]" "testStats q = zeroStats"
    using reset_peak_fields[OF q] tp by simp_all
  have ar: "currentIndex (timerFires 4000 r) = 1"
      "totalAttempts (testStats (timerFires 4000 r)) = 0"
    using fr by (simp_all add: timerFires_def advance_def zeroStats_def)
  have aq: "currentIndex (timerFires 4000 q) = 1"
      "totalAttempts (testStats (timerFires 4000 q)) = 0"
    using fq by (simp_all add: timerFires_def advance_def zeroStats_def)
  have pa: "timers (pauseTest dwellAttempted) = [4000]"
      "currentIndex (timerFires 4000 (pauseTest dwellAttempted)) = 1"
    by (simp_all add: pauseTest_def dwellAttempted_def session_eval)
  from r q fr(1,2) fq(1,2) ar aq pa show ?thesis by blast
qed

end
